theory Spec2Isabelle
  imports Main
begin

section \<open>JavaScript primitives used by the knowledge service\<close>

text \<open>
  Strings are lists of code units. The model covers code units below 256 (Latin-1), which
  is what \<^typ>\<open>char\<close> holds. Numbers are integers: every number the service computes with
  is a length, an index, a counter or a parsed integer.
\<close>

text \<open>
  The characters matched by the regular expression class \<open>\<bsol>s\<close> and removed by
  \<open>String.prototype.trim\<close>: tab, line feed, vertical tab, form feed, carriage return,
  space and no-break space.
\<close>

definition is_space :: "char \<Rightarrow> bool" where
  "is_space c = (c \<in> set [CHR 0x09, CHR 0x0A, CHR 0x0B, CHR 0x0C, CHR 0x0D, CHR 0x20, CHR 0xA0])"

text \<open>The class \<open>\<bsol>w\<close>: ASCII letters, digits and the underscore.\<close>

definition is_word_char :: "char \<Rightarrow> bool" where
  "is_word_char c =
     (let n = (of_char c :: nat)
      in (48 \<le> n \<and> n \<le> 57) \<or> (65 \<le> n \<and> n \<le> 90) \<or> n = 95 \<or> (97 \<le> n \<and> n \<le> 122))"

text \<open>\<open>String.prototype.toLowerCase\<close>, one code unit at a time.\<close>

definition lower_char :: "char \<Rightarrow> char" where
  "lower_char c =
     (let n = (of_char c :: nat)
      in if (65 \<le> n \<and> n \<le> 90) \<or> (192 \<le> n \<and> n \<le> 222 \<and> n \<noteq> 215)
         then char_of (n + 32) else c)"

definition toLowerCase :: "string \<Rightarrow> string" where
  "toLowerCase s = map lower_char s"

text \<open>
  \<open>s.split(/\<bsol>s+/)\<close>: the pieces between maximal runs of white space. The result is never
  empty; a string that starts or ends with white space yields an empty first or last piece.
\<close>

function split_ws :: "string \<Rightarrow> string list" where
  "split_ws [] = [[]]"
| "split_ws (c # cs) =
     (if is_space c then [] # split_ws (dropWhile is_space cs)
      else (case split_ws cs of [] \<Rightarrow> [[c]] | w # ws \<Rightarrow> (c # w) # ws))"
  by pat_completeness auto
termination
  by (relation "measure length") (auto simp: length_dropWhile_le less_Suc_eq_le)

text \<open>\<open>words.join(' ')\<close>.\<close>

fun join_sp :: "string list \<Rightarrow> string" where
  "join_sp [] = []"
| "join_sp [w] = w"
| "join_sp (w # v # ws) = w @ CHR '' '' # join_sp (v # ws)"

text \<open>\<open>String.prototype.trim\<close>.\<close>

definition trim :: "string \<Rightarrow> string" where
  "trim s = rev (dropWhile is_space (rev (dropWhile is_space s)))"

text \<open>
  \<open>Array.prototype.slice(start, end)\<close>: a negative index counts from the end, and both
  indices are clamped to the array.
\<close>

definition js_slice :: "'a list \<Rightarrow> int \<Rightarrow> int \<Rightarrow> 'a list" where
  "js_slice xs start fin =
     (let n = int (length xs);
          k = (if start < 0 then max (n + start) 0 else min start n);
          f = (if fin < 0 then max (n + fin) 0 else min fin n)
      in take (nat (f - k)) (drop (nat k) xs))"

text \<open>
  \<open>Array.prototype.sort(cmp)\<close>, as Node runs it on a short array: the elements are taken
  from left to right, and each is put in front of the first element already placed that it
  compares less than (\<open>cmp(element, placed) < 0\<close>), behind all of them if there is none.
  With a consistent comparator this is the stable sort the language asks for. With the
  comparator of \<open>getDocuments\<close>, which answers \<open>-1\<close> for equal keys in both directions,
  documents with equal keys come out in the reverse of their order of insertion.
\<close>

fun js_insort :: "('a \<Rightarrow> 'a \<Rightarrow> int) \<Rightarrow> 'a \<Rightarrow> 'a list \<Rightarrow> 'a list" where
  "js_insort cmp x [] = [x]"
| "js_insort cmp x (y # ys) = (if cmp x y < 0 then x # y # ys else y # js_insort cmp x ys)"

definition js_sort :: "('a \<Rightarrow> 'a \<Rightarrow> int) \<Rightarrow> 'a list \<Rightarrow> 'a list" where
  "js_sort cmp xs = foldl (\<lambda>placed x. js_insort cmp x placed) [] xs"

text \<open>\<open>s.includes(t)\<close>: \<open>t\<close> occurs in \<open>s\<close> as a contiguous substring.\<close>

fun starts_with :: "string \<Rightarrow> string \<Rightarrow> bool" where
  "starts_with s [] = True"
| "starts_with [] (c # t) = False"
| "starts_with (d # s) (c # t) = (d = c \<and> starts_with s t)"

fun str_includes :: "string \<Rightarrow> string \<Rightarrow> bool" where
  "str_includes [] t = (t = [])"
| "str_includes (c # s) t = (starts_with (c # s) t \<or> str_includes s t)"

text \<open>
  \<open>(s.match(new RegExp(t, 'g')) || []).length\<close> for a pattern made of word characters
  only: the number of occurrences of \<open>t\<close> found from left to right without overlap. The
  empty pattern matches once at every position.
\<close>

function match_count :: "string \<Rightarrow> string \<Rightarrow> nat" where
  "match_count s t =
     (if t = [] then Suc (length s)
      else if s = [] then 0
      else if starts_with s t then Suc (match_count (drop (length t) s) t)
      else match_count (tl s) t)"
  by pat_completeness auto
termination
  by (relation "measure (\<lambda>(s, t). length s)") auto

section \<open>Chunking\<close>

record chunk =
  chunk_text :: string
  startIndex :: int
  chunk_wordCount :: int

text \<open>
  The loop of \<open>chunkText\<close>: \<open>for (let i = 0; i < words.length; i += chunkSize - overlap)\<close>.
  The index moves by \<open>chunkSize - overlap\<close>, which the code does not require to be
  positive, so the loop may run forever: such a call has the value \<open>None\<close>.
\<close>

partial_function (option) chunk_loop ::
  "string list \<Rightarrow> int \<Rightarrow> int \<Rightarrow> int \<Rightarrow> chunk list \<Rightarrow> chunk list option" where
  "chunk_loop words chunkSize overlap i chunks =
     (if i < int (length words) then
        (let c = join_sp (js_slice words i (i + chunkSize))
         in chunk_loop words chunkSize overlap (i + (chunkSize - overlap))
              (if trim c \<noteq> []
               then chunks @ [\<lparr>chunk_text = c, startIndex = i,
                                chunk_wordCount = min chunkSize (int (length words) - i)\<rparr>]
               else chunks))
      else Some chunks)"

declare chunk_loop.simps [code]

definition chunkText :: "string \<Rightarrow> int \<Rightarrow> int \<Rightarrow> chunk list option" where
  "chunkText txt chunkSize overlap = chunk_loop (split_ws txt) chunkSize overlap 0 []"

section \<open>Search terms\<close>

definition stopWords :: "string list" where
  "stopWords =
     [''the'', ''a'', ''an'', ''and'', ''or'', ''but'', ''in'', ''on'', ''at'', ''to'', ''for'',
      ''of'', ''with'', ''by'', ''is'', ''are'', ''was'', ''were'', ''be'', ''been'', ''have'',
      ''has'', ''had'', ''do'', ''does'', ''did'', ''will'', ''would'', ''could'', ''should'',
      ''this'', ''that'', ''these'', ''those'', ''i'', ''you'', ''he'', ''she'', ''it'', ''we'',
      ''they'']"

definition isStopWord :: "string \<Rightarrow> bool" where
  "isStopWord w = (w \<in> set stopWords)"

text \<open>
  \<open>extractSearchTerms\<close>: lower case, every character outside \<open>[\<bsol>w\<bsol>s]\<close> replaced by a
  space, split at white space, words of at most two characters and stop words dropped. The
  result is an array: a word that occurs twice in the text occurs twice in it.
\<close>

definition extractSearchTerms :: "string \<Rightarrow> string list" where
  "extractSearchTerms txt =
     filter (\<lambda>w. \<not> isStopWord w)
       (filter (\<lambda>w. length w > 2)
          (split_ws
             (map (\<lambda>c. if is_word_char c \<or> is_space c then c else CHR '' '')
                (toLowerCase txt))))"

section \<open>Documents, the document store and the index\<close>

text \<open>The file object handed over by the upload middleware.\<close>

record upload =
  originalname :: string
  file_path :: string
  file_size :: int
  mimetype :: string

record document =
  doc_id :: string
  title :: string
  description :: string
  category :: string
  fileName :: string
  filePath :: string
  fileSize :: int
  mimeType :: string
  userId :: string
  status :: string
  createdAt :: string
  updatedAt :: string
  extractedText :: string
  chunks :: "chunk list"
  wordCount :: int
  processedAt :: string

text \<open>The object that \<open>indexDocument\<close> stores in a term's entry.\<close>

record docInfo =
  documentId :: string
  info_userId :: string
  info_title :: string
  info_category :: string

text \<open>
  A JavaScript \<open>Map\<close> whose order of insertion is observable is an association list:
  \<open>set\<close> replaces the value of a key in place or appends a new key, \<open>get\<close> is
  \<^const>\<open>map_of\<close>, \<open>delete\<close> removes the key.
\<close>

definition map_set :: "('k \<times> 'v) list \<Rightarrow> 'k \<Rightarrow> 'v \<Rightarrow> ('k \<times> 'v) list" where
  "map_set m k v =
     (if k \<in> fst ` set m then map (\<lambda>(k', v'). if k' = k then (k', v) else (k', v')) m
      else m @ [(k, v)])"

definition map_delete :: "('k \<times> 'v) list \<Rightarrow> 'k \<Rightarrow> ('k \<times> 'v) list" where
  "map_delete m k = filter (\<lambda>(k', v'). k' \<noteq> k) m"

text \<open>
  The state of the module: \<open>documents\<close> maps a user to that user's \<open>Map\<close> of documents,
  \<open>documentIndex\<close> maps a term to its entry, and \<open>files\<close> holds the paths of the uploaded
  files on disk. An entry of the index is a \<open>Set\<close> of objects. A \<open>Set\<close> compares objects
  by identity and \<open>indexDocument\<close> adds a newly created object each time, so no added
  object is ever found in the entry already: an entry is the list of the objects added, in
  the order of their insertion.
\<close>

record kb_state =
  documents :: "string \<rightharpoonup> (string \<times> document) list"
  documentIndex :: "string \<rightharpoonup> docInfo list"
  files :: "string set"

definition init_state :: kb_state where
  "init_state = \<lparr>documents = Map.empty, documentIndex = Map.empty, files = {}\<rparr>"

text \<open>\<open>documents.get(userId) || new Map()\<close>\<close>

definition user_docs :: "kb_state \<Rightarrow> string \<Rightarrow> (string \<times> document) list" where
  "user_docs st uid = (case documents st uid of None \<Rightarrow> [] | Some m \<Rightarrow> m)"

text \<open>\<open>documentIndex.get(term) || new Set()\<close>\<close>

definition index_get :: "(string \<rightharpoonup> docInfo list) \<Rightarrow> string \<Rightarrow> docInfo list" where
  "index_get idx t = (case idx t of None \<Rightarrow> [] | Some refs \<Rightarrow> refs)"

text \<open>The body of the \<open>forEach\<close> in \<open>indexDocument\<close>, for one term.\<close>

definition index_add ::
  "document \<Rightarrow> (string \<rightharpoonup> docInfo list) \<Rightarrow> string \<Rightarrow> (string \<rightharpoonup> docInfo list)" where
  "index_add d idx t =
     idx(t \<mapsto> index_get idx t @
                [\<lparr>documentId = doc_id d, info_userId = userId d,
                  info_title = title d, info_category = category d\<rparr>])"

definition indexDocument ::
  "(string \<rightharpoonup> docInfo list) \<Rightarrow> document \<Rightarrow> (string \<rightharpoonup> docInfo list)" where
  "indexDocument idx d = foldl (index_add d) idx (extractSearchTerms (extractedText d))"

text \<open>
  \<open>removeFromIndex\<close> visits every entry, deletes from it the objects of the document, and
  deletes the entry when nothing is left in it.
\<close>

definition removeFromIndex ::
  "(string \<rightharpoonup> docInfo list) \<Rightarrow> string \<Rightarrow> (string \<rightharpoonup> docInfo list)" where
  "removeFromIndex idx did =
     (\<lambda>t. case idx t of
             None \<Rightarrow> None
           | Some docSet \<Rightarrow>
               (let kept = filter (\<lambda>doc. documentId doc \<noteq> did) docSet
                in if kept = [] then None else Some kept))"

section \<open>Search\<close>

text \<open>The values of the fields of the objects sent to the client.\<close>

datatype jsval = JStr string | JNum int | JUndefined

type_synonym jsobj = "(string \<times> jsval) list"

record scoredChunk = chunk +
  chunk_score :: int

record searchResult =
  res_document :: jsobj
  score :: int
  relevantChunks :: "scoredChunk list"
  matchedTerms :: "string list"

text \<open>\<open>const { limit = 10, category } = options\<close>\<close>

record searchOptions =
  opt_limit :: "int option"
  opt_category :: "string option"

text \<open>
  \<open>documentScores.set(id, (documentScores.get(id) || 0) + 1)\<close> on the \<open>Map\<close> of scores,
  whose order of insertion the later sort observes.
\<close>

definition add_score :: "(string \<times> int) list \<Rightarrow> string \<Rightarrow> (string \<times> int) list" where
  "add_score documentScores did =
     map_set documentScores did
       ((case map_of documentScores did of None \<Rightarrow> 0 | Some currentScore \<Rightarrow> currentScore) + 1)"

text \<open>The inner \<open>forEach\<close> over the entry of one term, and the outer one over the terms.\<close>

definition score_entry ::
  "string \<Rightarrow> (string \<times> int) list \<Rightarrow> docInfo list \<Rightarrow> (string \<times> int) list" where
  "score_entry uid documentScores matchingDocs =
     foldl (\<lambda>sc docInfo. if info_userId docInfo = uid then add_score sc (documentId docInfo) else sc)
       documentScores matchingDocs"

definition score_terms ::
  "(string \<rightharpoonup> docInfo list) \<Rightarrow> string \<Rightarrow> string list \<Rightarrow> (string \<times> int) list" where
  "score_terms idx uid searchTerms =
     foldl (\<lambda>sc t. score_entry uid sc (index_get idx t)) [] searchTerms"

definition chunk_matches :: "string list \<Rightarrow> chunk \<Rightarrow> int" where
  "chunk_matches searchTerms c =
     foldl (\<lambda>acc t. acc + int (match_count (toLowerCase (chunk_text c)) t)) 0 searchTerms"

definition findRelevantChunks :: "chunk list \<Rightarrow> string list \<Rightarrow> int \<Rightarrow> scoredChunk list" where
  "findRelevantChunks cs searchTerms maxChunks =
     filter (\<lambda>c. chunk_score c > 0)
       (js_slice
          (js_sort (\<lambda>a b. chunk_score b - chunk_score a)
             (map (\<lambda>c. \<lparr>chunk_text = chunk_text c, startIndex = startIndex c,
                         chunk_wordCount = chunk_wordCount c,
                         chunk_score = chunk_matches searchTerms c\<rparr>) cs))
          0 maxChunks)"

definition make_result :: "document \<Rightarrow> int \<Rightarrow> string list \<Rightarrow> searchResult" where
  "make_result doc sc searchTerms =
     \<lparr>res_document =
        [(''id'', JStr (doc_id doc)), (''title'', JStr (title doc)),
         (''description'', JStr (description doc)), (''category'', JStr (category doc)),
         (''fileName'', JStr (fileName doc)), (''createdAt'', JStr (createdAt doc))],
      score = sc,
      relevantChunks = findRelevantChunks (chunks doc) searchTerms 3,
      matchedTerms = filter (\<lambda>t. str_includes (toLowerCase (extractedText doc)) t) searchTerms\<rparr>"

text \<open>
  The loop over the sorted candidates: a candidate without a document of the user is
  skipped, and so is one of another category when a category is asked for (the empty string
  asks for none).
\<close>

fun collect_results ::
  "(string \<times> document) list \<Rightarrow> string option \<Rightarrow> string list \<Rightarrow> (string \<times> int) list
     \<Rightarrow> searchResult list" where
  "collect_results userDocs cat searchTerms [] = []"
| "collect_results userDocs cat searchTerms ((did, sc) # rest) =
     (case map_of userDocs did of
        None \<Rightarrow> collect_results userDocs cat searchTerms rest
      | Some doc \<Rightarrow>
          (if (case cat of None \<Rightarrow> False | Some c \<Rightarrow> c \<noteq> [] \<and> category doc \<noteq> c)
           then collect_results userDocs cat searchTerms rest
           else make_result doc sc searchTerms # collect_results userDocs cat searchTerms rest))"

definition sorted_candidates ::
  "(string \<rightharpoonup> docInfo list) \<Rightarrow> string \<Rightarrow> string list \<Rightarrow> int \<Rightarrow> (string \<times> int) list" where
  "sorted_candidates idx uid searchTerms limit =
     js_slice (js_sort (\<lambda>(_, a) (_, b). b - a) (score_terms idx uid searchTerms)) 0 limit"

definition searchKnowledgeBase ::
  "kb_state \<Rightarrow> string \<Rightarrow> string \<Rightarrow> searchOptions \<Rightarrow> searchResult list" where
  "searchKnowledgeBase st query uid options =
     (let limit = (case opt_limit options of None \<Rightarrow> 10 | Some l \<Rightarrow> l);
          searchTerms = extractSearchTerms query;
          userDocs = user_docs st uid;
          sortedDocs = sorted_candidates (documentIndex st) uid searchTerms limit
      in collect_results userDocs (opt_category options) searchTerms sortedDocs)"

text \<open>
  A value that reaches the service from outside is not always a string. The query parser
  of the routes yields nothing for a parameter that is absent, a string for a parameter
  given once, and an array or an object for a repeated or bracketed one.
\<close>

datatype query_value = QAbsent | QString string | QOther

datatype js_error = TypeError

text \<open>
  \<open>searchKnowledgeBase\<close> called with any such value: \<open>extractSearchTerms\<close> calls
  \<open>toLowerCase\<close> on it, which throws a \<open>TypeError\<close> unless it is a string; the service
  logs the error and throws it again.
\<close>

definition search_call ::
  "kb_state \<Rightarrow> query_value \<Rightarrow> string \<Rightarrow> searchOptions \<Rightarrow> js_error + searchResult list" where
  "search_call st q uid options =
     (case q of
        QString query \<Rightarrow> Inr (searchKnowledgeBase st query uid options)
      | QAbsent \<Rightarrow> Inl TypeError
      | QOther \<Rightarrow> Inl TypeError)"

text \<open>
  The handler of \<open>GET /search\<close>: a query that is falsy (absent, or the empty string) is
  answered with 400 before the service is called; an error thrown by the service is
  answered with 500; otherwise the answer holds the results of the search. The limit is
  \<open>parseInt\<close> of the parameter, 10 when the parameter is absent. \<open>parseInt\<close> may yield
  \<open>NaN\<close>, which the service hands to \<open>slice(0, limit)\<close> only, where it counts as 0. The
  category is modelled as it arrives when given once: a string.
\<close>

record searchResponse =
  resp_query :: query_value
  results :: "searchResult list"
  totalResults :: int

datatype limit_value = LAbsent | LInt int | LNaN

datatype 'a response = Status200 'a | Status400 string string | Status500 string js_error

definition search_route ::
  "kb_state \<Rightarrow> query_value \<Rightarrow> limit_value \<Rightarrow> string option \<Rightarrow> string
     \<Rightarrow> searchResponse response" where
  "search_route st q limit cat uid =
     (if q = QAbsent \<or> q = QString [] then Status400 ''Search query is required'' ''q''
      else (case search_call st q uid
                   \<lparr>opt_limit = Some (case limit of LAbsent \<Rightarrow> 10 | LInt l \<Rightarrow> l | LNaN \<Rightarrow> 0),
                    opt_category = cat\<rparr> of
              Inl e \<Rightarrow> Status500 ''Search failed'' e
            | Inr rs \<Rightarrow>
                Status200 \<lparr>resp_query = q, results = rs, totalResults = int (length rs)\<rparr>))"

text \<open>
  The chat command \<open>kb\<close>: \<open>handleKnowledgeCommand(args, user, options)\<close>. The words after
  the action are joined to the query, and with the action \<open>search\<close> the service is called
  with that query, whatever it is, and without options.
\<close>

datatype command_result = KnowledgeSearch "searchResult list" string | CommandFailed string

definition handleKnowledgeCommand :: "kb_state \<Rightarrow> string list \<Rightarrow> string \<Rightarrow> command_result" where
  "handleKnowledgeCommand st args uid =
     (case args of
        [] \<Rightarrow> CommandFailed ''Knowledge commands: search <query>''
      | action # rest \<Rightarrow>
          (let query = join_sp rest
           in if action = ''search''
              then KnowledgeSearch
                     (searchKnowledgeBase st query uid \<lparr>opt_limit = None, opt_category = None\<rparr>)
                     query
              else CommandFailed ''Knowledge commands: search <query>''))"

section \<open>Listing\<close>

text \<open>
  \<open>const { page = 1, limit = 20, category, sortBy = 'createdAt', sortOrder = 'desc' } = options\<close>
\<close>

record listOptions =
  lo_page :: "int option"
  lo_limit :: "int option"
  lo_category :: "string option"
  lo_sortBy :: "string option"
  lo_sortOrder :: "string option"

text \<open>
  \<open>doc[sortBy]\<close>: the property of a stored document with the given name. The array of
  chunks takes part in a comparison as the string it converts to.
\<close>

definition doc_field :: "document \<Rightarrow> string \<Rightarrow> jsval" where
  "doc_field d name =
     (if name = ''id'' then JStr (doc_id d)
      else if name = ''title'' then JStr (title d)
      else if name = ''description'' then JStr (description d)
      else if name = ''category'' then JStr (category d)
      else if name = ''fileName'' then JStr (fileName d)
      else if name = ''filePath'' then JStr (filePath d)
      else if name = ''fileSize'' then JNum (fileSize d)
      else if name = ''mimeType'' then JStr (mimeType d)
      else if name = ''userId'' then JStr (userId d)
      else if name = ''status'' then JStr (status d)
      else if name = ''createdAt'' then JStr (createdAt d)
      else if name = ''updatedAt'' then JStr (updatedAt d)
      else if name = ''extractedText'' then JStr (extractedText d)
      else if name = ''chunks''
        then JStr (concat (map (\<lambda>i. (if i = 0 then [] else '','') @ ''[object Object]'')
                            [0 ..< length (chunks d)]))
      else if name = ''wordCount'' then JNum (wordCount d)
      else if name = ''processedAt'' then JStr (processedAt d)
      else JUndefined)"

text \<open>
  The operator \<open>>\<close> on two values of one property: code unit order on strings, numeric
  order on numbers, false when a value is undefined.
\<close>

fun str_less :: "string \<Rightarrow> string \<Rightarrow> bool" where
  "str_less [] [] = False"
| "str_less [] (d # t) = True"
| "str_less (c # s) [] = False"
| "str_less (c # s) (d # t) =
     ((of_char c :: nat) < of_char d \<or> (c = d \<and> str_less s t))"

fun js_gt :: "jsval \<Rightarrow> jsval \<Rightarrow> bool" where
  "js_gt (JStr a) (JStr b) = str_less b a"
| "js_gt (JNum a) (JNum b) = (b < a)"
| "js_gt a b = False"

definition list_compare :: "string \<Rightarrow> string \<Rightarrow> document \<Rightarrow> document \<Rightarrow> int" where
  "list_compare sortBy sortOrder a b =
     (let aVal = doc_field a sortBy; bVal = doc_field b sortBy
      in if sortOrder = ''desc'' then (if js_gt bVal aVal then 1 else - 1)
         else (if js_gt aVal bVal then 1 else - 1))"

text \<open>The object built for one document of the list view.\<close>

definition cleaned :: "document \<Rightarrow> jsobj" where
  "cleaned doc =
     [(''id'', JStr (doc_id doc)), (''title'', JStr (title doc)),
      (''description'', JStr (description doc)), (''category'', JStr (category doc)),
      (''fileName'', JStr (fileName doc)), (''fileSize'', JNum (fileSize doc)),
      (''wordCount'', JNum (wordCount doc)), (''status'', JStr (status doc)),
      (''createdAt'', JStr (createdAt doc)), (''updatedAt'', JStr (updatedAt doc))]"

definition getDocuments :: "kb_state \<Rightarrow> string \<Rightarrow> listOptions \<Rightarrow> jsobj list" where
  "getDocuments st uid options =
     (let page = (case lo_page options of None \<Rightarrow> 1 | Some p \<Rightarrow> p);
          limit = (case lo_limit options of None \<Rightarrow> 20 | Some l \<Rightarrow> l);
          sortBy = (case lo_sortBy options of None \<Rightarrow> ''createdAt'' | Some f \<Rightarrow> f);
          sortOrder = (case lo_sortOrder options of None \<Rightarrow> ''desc'' | Some ord \<Rightarrow> ord);
          docArray = map snd (user_docs st uid);
          filtered = (case lo_category options of
                        None \<Rightarrow> docArray
                      | Some c \<Rightarrow> if c = [] then docArray
                                  else filter (\<lambda>doc. category doc = c) docArray);
          sorted = js_sort (list_compare sortBy sortOrder) filtered;
          startIdx = (page - 1) * limit;
          paginatedDocs = js_slice sorted startIdx (startIdx + limit)
      in map cleaned paginatedDocs)"

section \<open>Deleting\<close>

datatype deleteResult = DeleteFailed string | DeleteOk string string

text \<open>
  \<open>deleteDocument(documentId, userId)\<close>; \<open>now\<close> is the time read for \<open>deletedAt\<close>. A
  document that the user's \<open>Map\<close> does not hold ends the call before anything is changed.
  Otherwise the document leaves the \<open>Map\<close>, its objects leave the index and its file is
  unlinked (a failure of the unlink is logged and ignored).
\<close>

definition deleteDocument ::
  "kb_state \<Rightarrow> string \<Rightarrow> string \<Rightarrow> string \<Rightarrow> deleteResult \<times> kb_state" where
  "deleteDocument st did uid now =
     (let userDocs = user_docs st uid
      in case map_of userDocs did of
           None \<Rightarrow> (DeleteFailed ''Document not found'', st)
         | Some doc \<Rightarrow>
             (DeleteOk did now,
              st\<lparr>documents := (documents st)(uid \<mapsto> map_delete userDocs did),
                 documentIndex := removeFromIndex (documentIndex st) did,
                 files := files st - {filePath doc}\<rparr>))"

section \<open>Ingestion\<close>

record processOptions =
  po_file :: upload
  po_title :: string
  po_description :: string
  po_category :: string
  po_userId :: string

text \<open>
  What a call of \<open>processDocument\<close> reads from outside the module: the identifier that
  \<open>generateDocumentId\<close> returns, the three times read from the clock, and the text that
  reading the file (for a PDF, parsing it) yields, \<open>None\<close> when that fails.
\<close>

record environment =
  new_id :: string
  time_created :: string
  time_updated :: string
  time_processed :: string
  file_text :: "string option"

datatype process_error = UnsupportedFileType string | PdfExtractionFailed | ReadFailed

definition extract_text :: "upload \<Rightarrow> environment \<Rightarrow> process_error + string" where
  "extract_text f env =
     (if mimetype f = ''application/pdf''
      then (case file_text env of None \<Rightarrow> Inl PdfExtractionFailed | Some t \<Rightarrow> Inr t)
      else if mimetype f = ''text/plain'' \<or> mimetype f = ''text/markdown''
      then (case file_text env of None \<Rightarrow> Inl ReadFailed | Some t \<Rightarrow> Inr t)
      else Inl (UnsupportedFileType (mimetype f)))"

text \<open>
  \<open>processDocument\<close>: an error of the extraction unlinks the uploaded file and is thrown
  again; otherwise the document is stored under its user and indexed. The result is
  \<open>None\<close> when the call does not return, which only the loop of \<open>chunkText\<close> could cause.
\<close>

definition processDocument ::
  "kb_state \<Rightarrow> processOptions \<Rightarrow> environment
     \<Rightarrow> ((process_error + document) \<times> kb_state) option" where
  "processDocument st options env =
     (let f = po_file options; uid = po_userId options
      in case extract_text f env of
           Inl e \<Rightarrow> Some (Inl e, st\<lparr>files := files st - {file_path f}\<rparr>)
         | Inr txt \<Rightarrow>
             (case chunkText txt 1000 100 of
                None \<Rightarrow> None
              | Some cs \<Rightarrow>
                  (let doc = \<lparr>doc_id = new_id env, title = po_title options,
                              description = po_description options,
                              category = po_category options,
                              fileName = originalname f, filePath = file_path f,
                              fileSize = file_size f, mimeType = mimetype f,
                              userId = uid, status = ''processed'',
                              createdAt = time_created env, updatedAt = time_updated env,
                              extractedText = txt, chunks = cs,
                              wordCount = int (length (split_ws txt)),
                              processedAt = time_processed env\<rparr>
                   in Some (Inr doc,
                            st\<lparr>documents := (documents st)(uid \<mapsto> map_set (user_docs st uid) (doc_id doc) doc),
                               documentIndex := indexDocument (documentIndex st) doc\<rparr>))))"

text \<open>
  The states the module can be in: the initial one, and those that an upload storing its
  file, a call of \<open>processDocument\<close> or a call of \<open>deleteDocument\<close> leads to.
\<close>

inductive reachable :: "kb_state \<Rightarrow> bool" where
  reach_init: "reachable init_state"
| reach_upload: "reachable st \<Longrightarrow> reachable (st\<lparr>files := insert p (files st)\<rparr>)"
| reach_process: "reachable st \<Longrightarrow> processDocument st options env = Some (r, st') \<Longrightarrow> reachable st'"
| reach_delete: "reachable st \<Longrightarrow> deleteDocument st did uid now = (r, st') \<Longrightarrow> reachable st'"

text \<open>
  \<open>generateDocumentId\<close> builds an identifier from the time and a random number, to be
  unique. An identifier is unused when no user has a document under it, and the states of
  the module with unique identifiers are those it reaches when every call of
  \<open>processDocument\<close> is given an unused identifier.
\<close>

definition id_unused :: "kb_state \<Rightarrow> string \<Rightarrow> bool" where
  "id_unused st i = (\<forall>uid. map_of (user_docs st uid) i = None)"

inductive reachable_unique :: "kb_state \<Rightarrow> bool" where
  unique_init: "reachable_unique init_state"
| unique_upload: "reachable_unique st \<Longrightarrow> reachable_unique (st\<lparr>files := insert p (files st)\<rparr>)"
| unique_process:
    "reachable_unique st \<Longrightarrow> id_unused st (new_id env) \<Longrightarrow>
       processDocument st options env = Some (r, st') \<Longrightarrow> reachable_unique st'"
| unique_delete:
    "reachable_unique st \<Longrightarrow> deleteDocument st did uid now = (r, st') \<Longrightarrow> reachable_unique st'"

section \<open>Example inputs\<close>

text \<open>
  Three uploads of plain text: \<open>apple banana\<close> and then \<open>apple apple\<close> by the user
  \<open>alice\<close>, and \<open>apple\<close> by the user \<open>bob\<close> in between.
\<close>

definition options_1 :: processOptions where
  "options_1 =
     \<lparr>po_file = \<lparr>originalname = ''fruit.txt'', file_path = ''uploads/1_fruit.txt'',
                  file_size = 12, mimetype = ''text/plain''\<rparr>,
      po_title = ''Fruit'', po_description = '''', po_category = ''general'',
      po_userId = ''alice''\<rparr>"

definition env_1 :: environment where
  "env_1 = \<lparr>new_id = ''doc_1'', time_created = ''t1'', time_updated = ''t1'',
             time_processed = ''t1'', file_text = Some ''apple banana''\<rparr>"

definition options_2 :: processOptions where
  "options_2 =
     \<lparr>po_file = \<lparr>originalname = ''note.txt'', file_path = ''uploads/2_note.txt'',
                  file_size = 5, mimetype = ''text/plain''\<rparr>,
      po_title = ''Note'', po_description = '''', po_category = ''general'',
      po_userId = ''bob''\<rparr>"

definition env_2 :: environment where
  "env_2 = \<lparr>new_id = ''doc_2'', time_created = ''t2'', time_updated = ''t2'',
             time_processed = ''t2'', file_text = Some ''apple''\<rparr>"

definition options_3 :: processOptions where
  "options_3 =
     \<lparr>po_file = \<lparr>originalname = ''memo.txt'', file_path = ''uploads/3_memo.txt'',
                  file_size = 11, mimetype = ''text/plain''\<rparr>,
      po_title = ''Memo'', po_description = '''', po_category = ''general'',
      po_userId = ''alice''\<rparr>"

definition env_3 :: environment where
  "env_3 = \<lparr>new_id = ''doc_3'', time_created = ''t3'', time_updated = ''t3'',
             time_processed = ''t3'', file_text = Some ''apple apple''\<rparr>"

definition doc_1 :: document where
  "doc_1 =
     \<lparr>doc_id = ''doc_1'', title = ''Fruit'', description = '''', category = ''general'',
      fileName = ''fruit.txt'', filePath = ''uploads/1_fruit.txt'', fileSize = 12,
      mimeType = ''text/plain'', userId = ''alice'', status = ''processed'',
      createdAt = ''t1'', updatedAt = ''t1'', extractedText = ''apple banana'',
      chunks = [\<lparr>chunk_text = ''apple banana'', startIndex = 0, chunk_wordCount = 2\<rparr>],
      wordCount = 2, processedAt = ''t1''\<rparr>"

definition doc_2 :: document where
  "doc_2 =
     \<lparr>doc_id = ''doc_2'', title = ''Note'', description = '''', category = ''general'',
      fileName = ''note.txt'', filePath = ''uploads/2_note.txt'', fileSize = 5,
      mimeType = ''text/plain'', userId = ''bob'', status = ''processed'',
      createdAt = ''t2'', updatedAt = ''t2'', extractedText = ''apple'',
      chunks = [\<lparr>chunk_text = ''apple'', startIndex = 0, chunk_wordCount = 1\<rparr>],
      wordCount = 1, processedAt = ''t2''\<rparr>"

definition doc_3 :: document where
  "doc_3 =
     \<lparr>doc_id = ''doc_3'', title = ''Memo'', description = '''', category = ''general'',
      fileName = ''memo.txt'', filePath = ''uploads/3_memo.txt'', fileSize = 11,
      mimeType = ''text/plain'', userId = ''alice'', status = ''processed'',
      createdAt = ''t3'', updatedAt = ''t3'', extractedText = ''apple apple'',
      chunks = [\<lparr>chunk_text = ''apple apple'', startIndex = 0, chunk_wordCount = 2\<rparr>],
      wordCount = 2, processedAt = ''t3''\<rparr>"

definition info_1 :: docInfo where
  "info_1 = \<lparr>documentId = ''doc_1'', info_userId = ''alice'', info_title = ''Fruit'',
              info_category = ''general''\<rparr>"

definition info_2 :: docInfo where
  "info_2 = \<lparr>documentId = ''doc_2'', info_userId = ''bob'', info_title = ''Note'',
              info_category = ''general''\<rparr>"

definition info_3 :: docInfo where
  "info_3 = \<lparr>documentId = ''doc_3'', info_userId = ''alice'', info_title = ''Memo'',
              info_category = ''general''\<rparr>"

definition all_files :: "string set" where
  "all_files = {''uploads/1_fruit.txt'', ''uploads/2_note.txt'', ''uploads/3_memo.txt''}"

definition state_0 :: kb_state where
  "state_0 = \<lparr>documents = Map.empty, documentIndex = Map.empty, files = all_files\<rparr>"

definition state_1 :: kb_state where
  "state_1 =
     \<lparr>documents = [''alice'' \<mapsto> [(''doc_1'', doc_1)]],
      documentIndex = [''apple'' \<mapsto> [info_1], ''banana'' \<mapsto> [info_1]],
      files = all_files\<rparr>"

definition state_2 :: kb_state where
  "state_2 =
     \<lparr>documents = [''alice'' \<mapsto> [(''doc_1'', doc_1)], ''bob'' \<mapsto> [(''doc_2'', doc_2)]],
      documentIndex = [''apple'' \<mapsto> [info_1], ''banana'' \<mapsto> [info_1],
                       ''apple'' \<mapsto> [info_1, info_2]],
      files = all_files\<rparr>"

definition state_3 :: kb_state where
  "state_3 =
     \<lparr>documents = [''alice'' \<mapsto> [(''doc_1'', doc_1)], ''bob'' \<mapsto> [(''doc_2'', doc_2)],
                   ''alice'' \<mapsto> [(''doc_1'', doc_1), (''doc_3'', doc_3)]],
      documentIndex = [''apple'' \<mapsto> [info_1], ''banana'' \<mapsto> [info_1],
                       ''apple'' \<mapsto> [info_1, info_2],
                       ''apple'' \<mapsto> [info_1, info_2, info_3],
                       ''apple'' \<mapsto> [info_1, info_2, info_3, info_3]],
      files = all_files\<rparr>"

definition no_options :: searchOptions where
  "no_options = \<lparr>opt_limit = None, opt_category = None\<rparr>"

definition no_list_options :: listOptions where
  "no_list_options =
     \<lparr>lo_page = None, lo_limit = None, lo_category = None, lo_sortBy = None,
      lo_sortOrder = None\<rparr>"

text \<open>The state after \<open>alice\<close> has deleted her first document.\<close>

definition state_4 :: kb_state where
  "state_4 =
     \<lparr>documents = (documents state_3)(''alice'' \<mapsto> [(''doc_3'', doc_3)]),
      documentIndex = removeFromIndex (documentIndex state_3) ''doc_1'',
      files = all_files - {''uploads/1_fruit.txt''}\<rparr>"

text \<open>A text of 901 words: the word \<open>a\<close> 901 times, with single spaces in between.\<close>

definition text_901 :: string where
  "text_901 = concat (replicate 900 ''a '') @ ''a''"

section \<open>Notions used in the statements\<close>

text \<open>The entry that \<open>indexDocument\<close> adds for a document.\<close>

definition info_of :: "document \<Rightarrow> docInfo" where
  "info_of d = \<lparr>documentId = doc_id d, info_userId = userId d, info_title = title d,
                 info_category = category d\<rparr>"

text \<open>
  The number of objects in the entry of a term that name the given document and the
  given user.
\<close>

definition ref_count :: "(string \<rightharpoonup> docInfo list) \<Rightarrow> string \<Rightarrow> string \<Rightarrow> string \<Rightarrow> nat" where
  "ref_count idx uid did t =
     length (filter (\<lambda>r. documentId r = did \<and> info_userId r = uid) (index_get idx t))"

text \<open>
  The score as the specification words it: the number of distinct terms of the query that
  are among the terms of the text of the document.
\<close>

definition spec_score :: "string \<Rightarrow> string \<Rightarrow> nat" where
  "spec_score query txt =
     length (remdups (filter (\<lambda>t. t \<in> set (extractSearchTerms txt)) (extractSearchTerms query)))"

text \<open>
  Every document is stored under its own identifier in the \<open>Map\<close> of the user it names.
\<close>

definition store_owned :: "kb_state \<Rightarrow> bool" where
  "store_owned st =
     (\<forall>uid m did d. documents st uid = Some m \<longrightarrow> (did, d) \<in> set m \<longrightarrow>
        doc_id d = did \<and> userId d = uid)"

text \<open>The score that the \<open>Map\<close> of scores holds for a document, 0 when it holds none.\<close>

definition score_of :: "(string \<times> int) list \<Rightarrow> string \<Rightarrow> int" where
  "score_of documentScores did =
     (case map_of documentScores did of None \<Rightarrow> 0 | Some s \<Rightarrow> s)"

text \<open>The limit a search works with: the default is 10.\<close>

definition limit_of :: "searchOptions \<Rightarrow> int" where
  "limit_of options = (case opt_limit options of None \<Rightarrow> 10 | Some l \<Rightarrow> l)"

definition minus_one_options :: searchOptions where
  "minus_one_options = \<lparr>opt_limit = Some (- 1), opt_category = None\<rparr>"

text \<open>A document is stored for a user under an identifier.\<close>

definition stored :: "kb_state \<Rightarrow> string \<Rightarrow> string \<Rightarrow> document \<Rightarrow> bool" where
  "stored st uid did d = (map_of (user_docs st uid) did = Some d)"

text \<open>
  The index and the documents agree: every stored document is stored under its own
  identifier and user, and no identifier is stored for two users; every term of the text of
  a stored document has the object of the document in its entry; every object of an entry
  names a stored document whose text has the term; and no entry is empty.
\<close>

definition consistent :: "kb_state \<Rightarrow> bool" where
  "consistent st =
     ((\<forall>uid did d. stored st uid did d \<longrightarrow> doc_id d = did \<and> userId d = uid) \<and>
      (\<forall>uid uid' did d d'. stored st uid did d \<longrightarrow> stored st uid' did d' \<longrightarrow> uid = uid') \<and>
      (\<forall>uid did d. stored st uid did d \<longrightarrow>
         (\<forall>t\<in>set (extractSearchTerms (extractedText d)).
            info_of d \<in> set (index_get (documentIndex st) t))) \<and>
      (\<forall>t r. r \<in> set (index_get (documentIndex st) t) \<longrightarrow>
         (\<exists>d. stored st (info_userId r) (documentId r) d \<and>
              t \<in> set (extractSearchTerms (extractedText d)))) \<and>
      (\<forall>t. documentIndex st t \<noteq> Some []))"

section \<open>The example states arise from the code\<close>

lemma terms_apple_banana: "extractSearchTerms ''apple banana'' = [''apple'', ''banana'']"
  by code_simp

lemma terms_apple: "extractSearchTerms ''apple'' = [''apple'']"
  by code_simp

lemma chunks_apple_banana:
  "chunkText ''apple banana'' 1000 100 =
     Some [\<lparr>chunk_text = ''apple banana'', startIndex = 0, chunk_wordCount = 2\<rparr>]"
  by code_simp

lemma chunks_apple:
  "chunkText ''apple'' 1000 100 =
     Some [\<lparr>chunk_text = ''apple'', startIndex = 0, chunk_wordCount = 1\<rparr>]"
  by code_simp

lemma terms_apple_apple: "extractSearchTerms ''apple apple'' = [''apple'', ''apple'']"
  by code_simp

lemma chunks_apple_apple:
  "chunkText ''apple apple'' 1000 100 =
     Some [\<lparr>chunk_text = ''apple apple'', startIndex = 0, chunk_wordCount = 2\<rparr>]"
  by code_simp

lemma process_1: "processDocument state_0 options_1 env_1 = Some (Inr doc_1, state_1)"
  by (simp add: processDocument_def options_1_def env_1_def state_0_def state_1_def doc_1_def
      info_1_def extract_text_def chunks_apple_banana terms_apple_banana indexDocument_def
      index_add_def index_get_def user_docs_def map_set_def Let_def is_space_def)

lemma process_2: "processDocument state_1 options_2 env_2 = Some (Inr doc_2, state_2)"
  by (simp add: processDocument_def options_2_def env_2_def state_1_def state_2_def doc_2_def
      info_2_def extract_text_def chunks_apple terms_apple indexDocument_def
      index_add_def index_get_def user_docs_def map_set_def Let_def is_space_def)

lemma process_3: "processDocument state_2 options_3 env_3 = Some (Inr doc_3, state_3)"
  by (simp add: processDocument_def options_3_def env_3_def state_2_def state_3_def doc_3_def
      info_3_def extract_text_def chunks_apple_apple terms_apple_apple indexDocument_def
      index_add_def index_get_def user_docs_def map_set_def Let_def is_space_def)

lemma delete_1:
  "deleteDocument state_3 ''doc_1'' ''alice'' ''t9'' = (DeleteOk ''doc_1'' ''t9'', state_4)"
  by (simp add: deleteDocument_def state_4_def state_3_def user_docs_def map_delete_def
      doc_1_def Let_def)

lemma reachable_state_0: "reachable state_0"
proof -
  let ?s1 = "init_state\<lparr>files := insert ''uploads/1_fruit.txt'' (files init_state)\<rparr>"
  let ?s2 = "?s1\<lparr>files := insert ''uploads/2_note.txt'' (files ?s1)\<rparr>"
  let ?s3 = "?s2\<lparr>files := insert ''uploads/3_memo.txt'' (files ?s2)\<rparr>"
  have "reachable ?s3"
    by (intro reach_upload reach_init)
  moreover have "?s3 = state_0"
    by (auto simp: state_0_def init_state_def all_files_def)
  ultimately show ?thesis
    by simp
qed

lemma reachable_state_1: "reachable state_1"
  using reachable_state_0 process_1 by (rule reach_process)

lemma reachable_state_2: "reachable state_2"
  using reachable_state_1 process_2 by (rule reach_process)

lemma reachable_state_3: "reachable state_3"
  using reachable_state_2 process_3 by (rule reach_process)

lemma reachable_state_4: "reachable state_4"
  using reachable_state_3 delete_1 by (rule reach_delete)

section \<open>Deleting a document that the user does not have\<close>

text \<open>
  C6. \<open>deleteDocument\<close> answers \<open>Document not found\<close> whenever the \<open>Map\<close> of the given
  user holds no document with the given identifier, whatever the \<open>Map\<close>s of other users
  hold, and then the state it leaves (the documents, the index and the files) is the state
  it was called in.
\<close>

theorem delete_not_found_no_change:
  "map_of (user_docs st uid) did = None \<Longrightarrow>
     deleteDocument st did uid now = (DeleteFailed ''Document not found'', st)"
  by (simp add: deleteDocument_def)

theorem delete_not_found_no_change_witness:
  "map_of (user_docs state_2 ''alice'') ''doc_2'' = None \<and>
   map_of (user_docs state_2 ''bob'') ''doc_2'' = Some doc_2 \<and>
   deleteDocument state_2 ''doc_2'' ''alice'' ''t9'' = (DeleteFailed ''Document not found'', state_2)"
proof -
  have h: "map_of (user_docs state_2 ''alice'') ''doc_2'' = None"
    by (simp add: state_2_def user_docs_def)
  have "map_of (user_docs state_2 ''bob'') ''doc_2'' = Some doc_2"
    by (simp add: state_2_def user_docs_def)
  with h delete_not_found_no_change [OF h, of "''t9''"] show ?thesis
    by simp
qed

section \<open>A user without documents\<close>

lemma collect_results_no_docs: "collect_results [] cat ts cands = []"
  by (induction cands) auto

lemma js_slice_Nil: "js_slice [] a b = []"
  by (simp add: js_slice_def)

lemma js_sort_Nil: "js_sort cmp [] = []"
  by (simp add: js_sort_def)

text \<open>
  C10. For a user that \<open>documents\<close> does not know, and just the same for a user whose
  \<open>Map\<close> is empty, \<open>searchKnowledgeBase\<close> and \<open>getDocuments\<close> both return the empty array,
  for every query, all options and every index.
\<close>

theorem unknown_owner_empty:
  "documents st uid = None \<or> documents st uid = Some [] \<Longrightarrow>
     searchKnowledgeBase st query uid so = [] \<and> getDocuments st uid lo = []"
  by (auto simp: searchKnowledgeBase_def getDocuments_def user_docs_def Let_def
      collect_results_no_docs js_slice_Nil js_sort_Nil split: option.splits)

theorem unknown_owner_empty_witness:
  "documents state_2 ''carol'' = None \<and>
   searchKnowledgeBase state_2 ''apple'' ''carol'' no_options = [] \<and>
   getDocuments state_2 ''carol'' no_list_options = []"
proof -
  have h: "documents state_2 ''carol'' = None"
    by (simp add: state_2_def)
  then have "documents state_2 ''carol'' = None \<or> documents state_2 ''carol'' = Some []"
    by simp
  from h unknown_owner_empty [OF this, of "''apple''" no_options no_list_options]
  show ?thesis
    by simp
qed

section \<open>The index after ingestion and after deletion\<close>

lemma index_add_info: "index_add d idx t = idx(t \<mapsto> index_get idx t @ [info_of d])"
  by (simp add: index_add_def info_of_def)

lemma index_add_keeps:
  "r \<in> set (index_get idx t) \<Longrightarrow> r \<in> set (index_get (index_add d idx t') t)"
  by (auto simp: index_add_info index_get_def split: option.splits)

lemma index_fold_keeps:
  "r \<in> set (index_get idx t) \<Longrightarrow> r \<in> set (index_get (foldl (index_add d) idx ts) t)"
  by (induction ts arbitrary: idx) (simp_all add: index_add_keeps)

lemma index_fold_adds:
  "t \<in> set ts \<Longrightarrow> info_of d \<in> set (index_get (foldl (index_add d) idx ts) t)"
proof (induction ts arbitrary: idx)
  case Nil
  then show ?case by simp
next
  case (Cons a ts)
  show ?case
  proof (cases "t = a")
    case True
    have "info_of d \<in> set (index_get (index_add d idx a) a)"
      by (simp add: index_add_info index_get_def)
    then show ?thesis
      using True by (simp add: index_fold_keeps)
  next
    case False
    with Cons show ?thesis by simp
  qed
qed

lemma indexDocument_refs:
  "t \<in> set (extractSearchTerms (extractedText d)) \<Longrightarrow>
     info_of d \<in> set (index_get (indexDocument idx d) t)"
  by (simp add: indexDocument_def index_fold_adds)

lemma index_get_entry:
  "r \<in> set (index_get idx t) \<Longrightarrow> \<exists>refs. idx t = Some refs \<and> r \<in> set refs"
  by (cases "idx t") (simp_all add: index_get_def)

lemma processDocument_success:
  assumes "processDocument st options env = Some (Inr doc, st')"
  shows "documentIndex st' = indexDocument (documentIndex st) doc"
    and "documents st' =
           (documents st)(userId doc \<mapsto> map_set (user_docs st (userId doc)) (doc_id doc) doc)"
    and "files st' = files st"
    and "userId doc = po_userId options"
    and "doc_id doc = new_id env"
  using assms
  by (auto simp: processDocument_def Let_def split: sum.splits option.splits)

lemma removeFromIndex_entry:
  "removeFromIndex idx did t = Some refs \<Longrightarrow>
     refs \<noteq> [] \<and> (\<forall>r\<in>set refs. documentId r \<noteq> did)"
  by (auto simp: removeFromIndex_def Let_def split: option.splits if_splits)

lemma deleteDocument_success:
  assumes "deleteDocument st did uid now = (DeleteOk did' ts, st')"
  shows "documentIndex st' = removeFromIndex (documentIndex st) did"
    and "documents st' = (documents st)(uid \<mapsto> map_delete (user_docs st uid) did)"
    and "\<exists>doc. map_of (user_docs st uid) did = Some doc \<and> files st' = files st - {filePath doc}"
  using assms
  by (auto simp: deleteDocument_def Let_def split: option.splits)

section \<open>Facts about the primitives\<close>

lemma set_js_slice: "set (js_slice xs a b) \<subseteq> set xs"
proof -
  have "set (take n (drop k xs)) \<subseteq> set xs" for n k
    by (meson set_drop_subset set_take_subset subset_trans)
  then show ?thesis
    by (simp add: js_slice_def Let_def)
qed

lemma length_js_slice: "0 \<le> b \<Longrightarrow> int (length (js_slice xs 0 b)) \<le> b"
  by (simp add: js_slice_def Let_def)

lemma js_slice_prefix: "js_slice xs 0 b = take (length (js_slice xs 0 b)) xs"
  by (simp add: js_slice_def Let_def)

lemma set_js_insort: "set (js_insort cmp x xs) = insert x (set xs)"
  by (induction xs) auto

lemma set_js_fold:
  "set (foldl (\<lambda>placed x. js_insort cmp x placed) acc xs) = set acc \<union> set xs"
  by (induction xs arbitrary: acc) (simp_all add: set_js_insort)

lemma set_js_sort: "set (js_sort cmp xs) = set xs"
  by (simp add: js_sort_def set_js_fold)

lemma js_sort_equal_keys: "js_sort (\<lambda>a b. - 1) [a, b, c] = [c, b, a]"
  by (simp add: js_sort_def)

lemma sorted_js_insort:
  assumes "\<And>a b. cmp a b < 0 \<longleftrightarrow> key b < (key a :: int)"
    and "sorted_wrt (\<lambda>a b. key b \<le> key a) xs"
  shows "sorted_wrt (\<lambda>a b. key b \<le> key a) (js_insort cmp x xs)"
  using assms(2)
proof (induction xs)
  case Nil
  then show ?case by simp
next
  case (Cons y ys)
  show ?case
  proof (cases "cmp x y < 0")
    case True
    then have "key y < key x" using assms(1) by simp
    moreover have "\<forall>z\<in>set ys. key z \<le> key y" using Cons.prems by simp
    ultimately have "\<forall>z\<in>set (y # ys). key z \<le> key x" by fastforce
    with True Cons.prems show ?thesis by simp
  next
    case False
    then have "key x \<le> key y" using assms(1) [of x y] by linarith
    with False Cons show ?thesis
      by (auto simp: set_js_insort)
  qed
qed

lemma sorted_js_fold:
  assumes "\<And>a b. cmp a b < 0 \<longleftrightarrow> key b < (key a :: int)"
    and "sorted_wrt (\<lambda>a b. key b \<le> key a) acc"
  shows "sorted_wrt (\<lambda>a b. key b \<le> key a) (foldl (\<lambda>placed x. js_insort cmp x placed) acc xs)"
  using assms(2)
  by (induction xs arbitrary: acc) (simp_all add: sorted_js_insort [OF assms(1)])

lemma sorted_js_sort:
  assumes "\<And>a b. cmp a b < 0 \<longleftrightarrow> key b < (key a :: int)"
  shows "sorted_wrt (\<lambda>a b. key b \<le> key a) (js_sort cmp xs)"
  unfolding js_sort_def by (rule sorted_js_fold [OF assms]) simp

lemma replace_keys:
  "map (fst \<circ> (\<lambda>(k', v'). if k' = k then (k', v) else (k', v'))) m = map fst m"
  by (induction m) auto

lemma replace_map_of:
  "map_of (map (\<lambda>(k', v'). if k' = k then (k', v) else (k', v')) m) x =
     (if x = k then (case map_of m k of None \<Rightarrow> None | Some old \<Rightarrow> Some v) else map_of m x)"
  by (induction m) auto

lemma map_of_map_set: "map_of (map_set m k v) = (map_of m)(k \<mapsto> v)"
proof (cases "k \<in> fst ` set m")
  case True
  then obtain old where "map_of m k = Some old"
    by (metis map_of_eq_None_iff not_Some_eq)
  with True show ?thesis
    by (auto simp: map_set_def replace_map_of fun_eq_iff)
next
  case False
  then have "map_of m k = None"
    by (simp add: map_of_eq_None_iff)
  with False show ?thesis
    by (auto simp: map_set_def map_add_def fun_eq_iff split: option.splits)
qed

lemma keys_map_set: "fst ` set (map_set m k v) = insert k (fst ` set m)"
proof (cases "k \<in> fst ` set m")
  case True
  have "set (map (fst \<circ> (\<lambda>(k', v'). if k' = k then (k', v) else (k', v'))) m) = set (map fst m)"
    by (simp only: replace_keys)
  then have "fst ` set (map (\<lambda>(k', v'). if k' = k then (k', v) else (k', v')) m) = fst ` set m"
    by (simp add: image_comp)
  with True show ?thesis
    by (auto simp: map_set_def)
next
  case False
  then show ?thesis
    by (simp add: map_set_def)
qed

lemma distinct_map_set:
  assumes "distinct (map fst m)"
  shows "distinct (map fst (map_set m k v))"
proof (cases "k \<in> fst ` set m")
  case True
  with assms show ?thesis
    by (simp add: map_set_def replace_keys)
next
  case False
  with assms show ?thesis
    by (simp add: map_set_def)
qed

lemma set_map_set: "set (map_set m k v) \<subseteq> insert (k, v) (set m)"
  by (auto simp: map_set_def split: if_splits)

lemma set_map_delete: "set (map_delete m k) \<subseteq> set m"
  by (auto simp: map_delete_def)

section \<open>The scores accumulated by a search\<close>

lemma score_of_add_score:
  "score_of (add_score sc d) d' = score_of sc d' + (if d' = d then 1 else 0)"
  by (simp add: add_score_def score_of_def map_of_map_set split: option.splits)

lemma distinct_add_score: "distinct (map fst sc) \<Longrightarrow> distinct (map fst (add_score sc d))"
  by (simp add: add_score_def distinct_map_set)

lemma keys_add_score: "fst ` set (add_score sc d) = insert d (fst ` set sc)"
  by (simp add: add_score_def keys_map_set)

lemma score_of_score_entry:
  "score_of (score_entry uid sc refs) d =
     score_of sc d + int (length (filter (\<lambda>r. documentId r = d \<and> info_userId r = uid) refs))"
  unfolding score_entry_def
  by (induction refs arbitrary: sc) (simp_all add: score_of_add_score)

lemma distinct_score_entry:
  "distinct (map fst sc) \<Longrightarrow> distinct (map fst (score_entry uid sc refs))"
  unfolding score_entry_def
  by (induction refs arbitrary: sc) (simp_all add: distinct_add_score)

lemma keys_score_entry:
  "fst ` set (score_entry uid sc refs) =
     fst ` set sc \<union> documentId ` {r \<in> set refs. info_userId r = uid}"
  unfolding score_entry_def
proof (induction refs arbitrary: sc)
  case Nil
  then show ?case by simp
next
  case (Cons r refs)
  show ?case
    by (cases "info_userId r = uid") (auto simp: Cons.IH keys_add_score)
qed

lemma score_of_fold:
  "score_of (foldl (\<lambda>sc t. score_entry uid sc (index_get idx t)) sc0 ts) d =
     score_of sc0 d + (\<Sum>t\<leftarrow>ts. int (ref_count idx uid d t))"
  by (induction ts arbitrary: sc0) (simp_all add: score_of_score_entry ref_count_def)

lemma distinct_fold:
  "distinct (map fst sc0) \<Longrightarrow>
     distinct (map fst (foldl (\<lambda>sc t. score_entry uid sc (index_get idx t)) sc0 ts))"
  by (induction ts arbitrary: sc0) (simp_all add: distinct_score_entry)

lemma keys_fold:
  "fst ` set (foldl (\<lambda>sc t. score_entry uid sc (index_get idx t)) sc0 ts) =
     fst ` set sc0 \<union>
     (\<Union>t\<in>set ts. documentId ` {r \<in> set (index_get idx t). info_userId r = uid})"
  by (induction ts arbitrary: sc0) (auto simp: keys_score_entry)

lemma score_of_score_terms:
  "score_of (score_terms idx uid ts) d = (\<Sum>t\<leftarrow>ts. int (ref_count idx uid d t))"
proof -
  have "score_of [] d = 0"
    by (simp add: score_of_def)
  then show ?thesis
    by (simp add: score_terms_def score_of_fold)
qed

lemma score_terms_entry:
  assumes "(did, s) \<in> set (score_terms idx uid ts)"
  shows "s = (\<Sum>t\<leftarrow>ts. int (ref_count idx uid did t))"
proof -
  have "distinct (map fst (score_terms idx uid ts))"
    by (simp add: score_terms_def distinct_fold)
  with assms have "map_of (score_terms idx uid ts) did = Some s"
    by simp
  then have "score_of (score_terms idx uid ts) did = s"
    by (simp add: score_of_def)
  then show ?thesis
    by (simp add: score_of_score_terms)
qed

lemma score_terms_key:
  assumes "(did, s) \<in> set (score_terms idx uid ts)"
  shows "\<exists>t\<in>set ts. \<exists>r\<in>set (index_get idx t). documentId r = did \<and> info_userId r = uid"
proof -
  from assms have "did \<in> fst ` set (score_terms idx uid ts)"
    by force
  then show ?thesis
    by (auto simp: score_terms_def keys_fold)
qed

lemma candidates_subset:
  "set (sorted_candidates idx uid ts limit) \<subseteq> set (score_terms idx uid ts)"
  using set_js_slice [of "js_sort (\<lambda>(_, a) (_, b). b - a) (score_terms idx uid ts)" 0 limit]
  by (simp add: sorted_candidates_def set_js_sort)

lemma collect_results_elem:
  "r \<in> set (collect_results userDocs cat ts cands) \<Longrightarrow>
     \<exists>did sc doc. (did, sc) \<in> set cands \<and> map_of userDocs did = Some doc \<and>
        r = make_result doc sc ts"
proof (induction cands)
  case Nil
  then show ?case by simp
next
  case (Cons c cands)
  obtain did sc where c: "c = (did, sc)"
    by (cases c)
  from Cons.prems c
  have "r \<in> set (collect_results userDocs cat ts cands) \<or>
        (\<exists>doc. map_of userDocs did = Some doc \<and> r = make_result doc sc ts)"
    by (auto split: option.splits if_splits)
  then show ?case
  proof
    assume "r \<in> set (collect_results userDocs cat ts cands)"
    from Cons.IH [OF this] show ?thesis
      by auto
  next
    assume "\<exists>doc. map_of userDocs did = Some doc \<and> r = make_result doc sc ts"
    with c show ?thesis
      by auto
  qed
qed

lemma search_result_elem:
  assumes "r \<in> set (searchKnowledgeBase st query uid options)"
  shows "\<exists>did sc doc.
           (did, sc) \<in> set (score_terms (documentIndex st) uid (extractSearchTerms query)) \<and>
           map_of (user_docs st uid) did = Some doc \<and>
           r = make_result doc sc (extractSearchTerms query)"
proof -
  from assms obtain limit where
    "r \<in> set (collect_results (user_docs st uid) (opt_category options)
                (extractSearchTerms query)
                (sorted_candidates (documentIndex st) uid (extractSearchTerms query) limit))"
    by (auto simp: searchKnowledgeBase_def Let_def)
  from collect_results_elem [OF this] candidates_subset show ?thesis
    by blast
qed

section \<open>Searches in the example states\<close>

lemma search_unfold:
  "searchKnowledgeBase st query uid options =
     collect_results (user_docs st uid) (opt_category options) (extractSearchTerms query)
       (sorted_candidates (documentIndex st) uid (extractSearchTerms query) (limit_of options))"
  by (simp add: searchKnowledgeBase_def limit_of_def Let_def)

lemma scores_apple_3:
  "score_terms (documentIndex state_3) ''alice'' [''apple''] = [(''doc_1'', 1), (''doc_3'', 2)]"
  by (simp add: score_terms_def score_entry_def add_score_def map_set_def index_get_def
      state_3_def info_1_def info_2_def info_3_def)

lemma candidates_apple_3:
  "sorted_candidates (documentIndex state_3) ''alice'' [''apple''] 10 =
     [(''doc_3'', 2), (''doc_1'', 1)]"
  by (simp add: sorted_candidates_def scores_apple_3 js_sort_def js_slice_def)

lemma candidates_apple_3_minus_one:
  "sorted_candidates (documentIndex state_3) ''alice'' [''apple''] (- 1) = [(''doc_3'', 2)]"
  by (simp add: sorted_candidates_def scores_apple_3 js_sort_def js_slice_def)

lemma user_docs_alice_3: "user_docs state_3 ''alice'' = [(''doc_1'', doc_1), (''doc_3'', doc_3)]"
  by (simp add: user_docs_def state_3_def)

lemma search_apple_3:
  "searchKnowledgeBase state_3 ''apple'' ''alice'' no_options =
     [make_result doc_3 2 [''apple''], make_result doc_1 1 [''apple'']]"
  by (simp add: search_unfold terms_apple limit_of_def no_options_def candidates_apple_3
      user_docs_alice_3)

lemma search_apple_3_minus_one:
  "searchKnowledgeBase state_3 ''apple'' ''alice'' minus_one_options =
     [make_result doc_3 2 [''apple'']]"
  by (simp add: search_unfold terms_apple limit_of_def minus_one_options_def
      candidates_apple_3_minus_one user_docs_alice_3)

lemma search_apple_apple_1:
  "searchKnowledgeBase state_1 ''apple apple'' ''alice'' no_options =
     [make_result doc_1 2 [''apple'', ''apple'']]"
  by (simp add: search_unfold terms_apple_apple limit_of_def no_options_def
      sorted_candidates_def score_terms_def score_entry_def add_score_def map_set_def
      index_get_def js_sort_def js_slice_def user_docs_def state_1_def info_1_def)

section \<open>Documents stay with their user\<close>

lemma store_owned_init: "store_owned init_state"
  by (simp add: store_owned_def init_state_def)

lemma store_owned_user_docs:
  "store_owned st \<Longrightarrow> (did, d) \<in> set (user_docs st uid) \<Longrightarrow> doc_id d = did \<and> userId d = uid"
  by (cases "documents st uid") (auto simp: store_owned_def user_docs_def)

lemma store_owned_update:
  assumes "store_owned st"
    and "documents st' = (documents st)(uid \<mapsto> m)"
    and "\<And>did d. (did, d) \<in> set m \<Longrightarrow> doc_id d = did \<and> userId d = uid"
  shows "store_owned st'"
  unfolding store_owned_def
proof (intro allI impI)
  fix u m' did d
  assume m': "documents st' u = Some m'" and mem: "(did, d) \<in> set m'"
  show "doc_id d = did \<and> userId d = u"
  proof (cases "u = uid")
    case True
    with m' assms(2) have "m' = m" by simp
    with mem assms(3) True show ?thesis by simp
  next
    case False
    with m' assms(2) have "documents st u = Some m'" by simp
    with assms(1) mem show ?thesis
      unfolding store_owned_def by blast
  qed
qed

lemma store_owned_process:
  assumes "store_owned st" and "processDocument st options env = Some (r, st')"
  shows "store_owned st'"
proof (cases r)
  case (Inl e)
  with assms(2) have "documents st' = documents st"
    by (auto simp: processDocument_def Let_def split: sum.splits option.splits)
  with assms(1) show ?thesis
    by (simp add: store_owned_def)
next
  case (Inr doc)
  with assms(2) have ok: "processDocument st options env = Some (Inr doc, st')"
    by simp
  show ?thesis
  proof (rule store_owned_update [OF assms(1) processDocument_success(2) [OF ok]])
    fix did d
    assume "(did, d) \<in> set (map_set (user_docs st (userId doc)) (doc_id doc) doc)"
    then have "(did, d) = (doc_id doc, doc) \<or> (did, d) \<in> set (user_docs st (userId doc))"
      using set_map_set by fastforce
    then show "doc_id d = did \<and> userId d = userId doc"
      using store_owned_user_docs [OF assms(1)] by auto
  qed
qed

lemma store_owned_delete:
  assumes "store_owned st" and "deleteDocument st did uid now = (r, st')"
  shows "store_owned st'"
proof (cases "map_of (user_docs st uid) did")
  case None
  with assms(2) have "st' = st"
    by (simp add: deleteDocument_def)
  with assms(1) show ?thesis by simp
next
  case (Some doc)
  with assms(2) have d: "documents st' = (documents st)(uid \<mapsto> map_delete (user_docs st uid) did)"
    by (auto simp: deleteDocument_def Let_def)
  show ?thesis
  proof (rule store_owned_update [OF assms(1) d])
    fix k d
    assume "(k, d) \<in> set (map_delete (user_docs st uid) did)"
    then have "(k, d) \<in> set (user_docs st uid)"
      using set_map_delete by fastforce
    then show "doc_id d = k \<and> userId d = uid"
      by (rule store_owned_user_docs [OF assms(1)])
  qed
qed

lemma reachable_store_owned: "reachable st \<Longrightarrow> store_owned st"
proof (induction rule: reachable.induct)
  case reach_init
  show ?case by (rule store_owned_init)
next
  case (reach_upload st p)
  then show ?case by (simp add: store_owned_def)
next
  case (reach_process st options env r st')
  then show ?case by (blast intro: store_owned_process)
next
  case (reach_delete st did uid now r st')
  then show ?case by (blast intro: store_owned_delete)
qed

text \<open>
  C3. Every result of a search for a user is built from a document held in that user's own
  \<open>Map\<close>, found through an object of the index that names that user; in every state the
  module can reach, such a document names that user as its owner.
\<close>

theorem owner_isolation:
  assumes "r \<in> set (searchKnowledgeBase st query uid options)"
  shows "\<exists>did doc.
           map_of (user_docs st uid) did = Some doc \<and>
           r = make_result doc (score r) (extractSearchTerms query) \<and>
           (\<exists>t\<in>set (extractSearchTerms query). \<exists>ref\<in>set (index_get (documentIndex st) t).
              documentId ref = did \<and> info_userId ref = uid) \<and>
           (reachable st \<longrightarrow> doc_id doc = did \<and> userId doc = uid)"
proof -
  from search_result_elem [OF assms] obtain did sc doc where
    c: "(did, sc) \<in> set (score_terms (documentIndex st) uid (extractSearchTerms query))"
    and d: "map_of (user_docs st uid) did = Some doc"
    and r: "r = make_result doc sc (extractSearchTerms query)"
    by blast
  from r have "score r = sc"
    by (simp add: make_result_def)
  with r have "r = make_result doc (score r) (extractSearchTerms query)"
    by simp
  moreover have "reachable st \<longrightarrow> doc_id doc = did \<and> userId doc = uid"
    using store_owned_user_docs [OF reachable_store_owned map_of_SomeD [OF d]] by blast
  ultimately show ?thesis
    using d score_terms_key [OF c] by blast
qed

theorem owner_isolation_witness:
  "reachable state_3 \<and>
   make_result doc_3 2 [''apple''] \<in> set (searchKnowledgeBase state_3 ''apple'' ''alice'' no_options) \<and>
   (\<exists>did doc. map_of (user_docs state_3 ''alice'') did = Some doc \<and>
      make_result doc_3 2 [''apple''] = make_result doc 2 (extractSearchTerms ''apple'') \<and>
      doc_id doc = did \<and> userId doc = ''alice'') \<and>
   map_of (user_docs state_3 ''bob'') ''doc_2'' = Some doc_2 \<and>
   info_2 \<in> set (index_get (documentIndex state_3) ''apple'') \<and>
   map_of (user_docs state_3 ''alice'') ''doc_2'' = None"
proof -
  have m: "make_result doc_3 2 [''apple''] \<in>
             set (searchKnowledgeBase state_3 ''apple'' ''alice'' no_options)"
    by (simp add: search_apple_3)
  have s: "score (make_result doc_3 2 [''apple'']) = 2"
    by (simp add: make_result_def)
  have b: "map_of (user_docs state_3 ''bob'') ''doc_2'' = Some doc_2"
    by (simp add: user_docs_def state_3_def)
  have i: "info_2 \<in> set (index_get (documentIndex state_3) ''apple'')"
    by (simp add: index_get_def state_3_def)
  have a: "map_of (user_docs state_3 ''alice'') ''doc_2'' = None"
    by (simp add: user_docs_alice_3)
  from owner_isolation [OF m] reachable_state_3 s
  have "\<exists>did doc. map_of (user_docs state_3 ''alice'') did = Some doc \<and>
      make_result doc_3 2 [''apple''] = make_result doc 2 (extractSearchTerms ''apple'') \<and>
      doc_id doc = did \<and> userId doc = ''alice''"
    by auto
  with reachable_state_3 m b i a show ?thesis
    by blast
qed

section \<open>What a score counts\<close>

text \<open>
  C1. The score that a search accumulates for a document is the sum, over the terms of the
  query with each term taken as often as the query has it, of the number of objects in the
  entry of the term that name the document and the searching user. The score of every
  result is the score accumulated for the document the result is built from.
\<close>

theorem accumulated_score:
  "score_of (score_terms idx uid ts) did = (\<Sum>t\<leftarrow>ts. int (ref_count idx uid did t)) \<and>
   (r \<in> set (searchKnowledgeBase st query uid options) \<longrightarrow>
      (\<exists>did' doc.
         map_of (user_docs st uid) did' = Some doc \<and>
         r = make_result doc (score r) (extractSearchTerms query) \<and>
         score r = score_of (score_terms (documentIndex st) uid (extractSearchTerms query)) did' \<and>
         score r = (\<Sum>t\<leftarrow>extractSearchTerms query. int (ref_count (documentIndex st) uid did' t))))"
proof (intro conjI impI)
  show "score_of (score_terms idx uid ts) did = (\<Sum>t\<leftarrow>ts. int (ref_count idx uid did t))"
    by (rule score_of_score_terms)
next
  assume "r \<in> set (searchKnowledgeBase st query uid options)"
  from search_result_elem [OF this] obtain did' sc doc where
    c: "(did', sc) \<in> set (score_terms (documentIndex st) uid (extractSearchTerms query))"
    and d: "map_of (user_docs st uid) did' = Some doc"
    and r: "r = make_result doc sc (extractSearchTerms query)"
    by blast
  from r have s: "score r = sc"
    by (simp add: make_result_def)
  have "sc = (\<Sum>t\<leftarrow>extractSearchTerms query. int (ref_count (documentIndex st) uid did' t))"
    by (rule score_terms_entry [OF c])
  with s r d show "\<exists>did' doc.
         map_of (user_docs st uid) did' = Some doc \<and>
         r = make_result doc (score r) (extractSearchTerms query) \<and>
         score r = score_of (score_terms (documentIndex st) uid (extractSearchTerms query)) did' \<and>
         score r = (\<Sum>t\<leftarrow>extractSearchTerms query. int (ref_count (documentIndex st) uid did' t))"
    by (auto simp: score_of_score_terms)
qed

theorem accumulated_score_witness:
  "make_result doc_1 2 [''apple'', ''apple''] \<in>
     set (searchKnowledgeBase state_1 ''apple apple'' ''alice'' no_options) \<and>
   (\<exists>did' doc.
      map_of (user_docs state_1 ''alice'') did' = Some doc \<and>
      score (make_result doc_1 2 [''apple'', ''apple'']) =
        (\<Sum>t\<leftarrow>extractSearchTerms ''apple apple''.
           int (ref_count (documentIndex state_1) ''alice'' did' t))) \<and>
   ref_count (documentIndex state_1) ''alice'' ''doc_1'' ''apple'' = 1 \<and>
   score (make_result doc_1 2 [''apple'', ''apple'']) = 2"
proof -
  have m: "make_result doc_1 2 [''apple'', ''apple''] \<in>
             set (searchKnowledgeBase state_1 ''apple apple'' ''alice'' no_options)"
    by (simp add: search_apple_apple_1)
  have c: "ref_count (documentIndex state_1) ''alice'' ''doc_1'' ''apple'' = 1"
    by (simp add: ref_count_def index_get_def state_1_def info_1_def)
  have s: "score (make_result doc_1 2 [''apple'', ''apple'']) = 2"
    by (simp add: make_result_def)
  from accumulated_score
         [where r = "make_result doc_1 2 [''apple'', ''apple'']" and st = state_1
            and query = "''apple apple''" and uid = "''alice''" and options = no_options] m
  have "\<exists>did' doc.
      map_of (user_docs state_1 ''alice'') did' = Some doc \<and>
      score (make_result doc_1 2 [''apple'', ''apple'']) =
        (\<Sum>t\<leftarrow>extractSearchTerms ''apple apple''.
           int (ref_count (documentIndex state_1) ''alice'' did' t))"
    by blast
  with m c s show ?thesis
    by blast
qed

text \<open>
  The query \<open>apple apple\<close> has one distinct term, which the text \<open>apple banana\<close> of the
  only document contains; the score of the document is 2.
\<close>

theorem accumulated_score_counterexample:
  "map score (searchKnowledgeBase state_1 ''apple apple'' ''alice'' no_options) = [2] \<and>
   spec_score ''apple apple'' (extractedText doc_1) = 1"
  by (simp add: search_apple_apple_1 make_result_def spec_score_def terms_apple_apple
      terms_apple_banana doc_1_def)

section \<open>The order of the results\<close>

lemma sorted_candidates_sorted:
  "sorted_wrt (\<lambda>a b. snd b \<le> snd a) (sorted_candidates idx uid ts limit)"
proof -
  let ?sorted = "js_sort (\<lambda>(_, a) (_, b). b - a) (score_terms idx uid ts)"
  have "sorted_wrt (\<lambda>a b. snd b \<le> snd a) ?sorted"
    by (rule sorted_js_sort) (auto split: prod.splits)
  then have "sorted_wrt (\<lambda>a b. snd b \<le> snd a) (take (length (js_slice ?sorted 0 limit)) ?sorted)"
    by (rule sorted_wrt_take)
  then show ?thesis
    using js_slice_prefix [of ?sorted limit] by (simp add: sorted_candidates_def)
qed

lemma collect_results_sorted:
  "sorted_wrt (\<lambda>a b. snd b \<le> snd a) cands \<Longrightarrow>
     sorted_wrt (\<lambda>a b. score b \<le> score a) (collect_results userDocs cat ts cands)"
proof (induction cands)
  case Nil
  then show ?case by simp
next
  case (Cons c cands)
  obtain did sc where c: "c = (did, sc)"
    by (cases c)
  from Cons.prems have rest: "sorted_wrt (\<lambda>a b. snd b \<le> snd a) cands"
    and low: "\<forall>x\<in>set cands. snd x \<le> sc"
    by (simp_all add: c)
  have below: "score r \<le> sc" if "r \<in> set (collect_results userDocs cat ts cands)" for r
  proof -
    from collect_results_elem [OF that] obtain did' sc' doc where
      "(did', sc') \<in> set cands" "r = make_result doc sc' ts"
      by blast
    with low show ?thesis
      by (auto simp: make_result_def)
  qed
  show ?case
    using Cons.IH [OF rest] below
    by (auto simp: c make_result_def split: option.splits)
qed

lemma length_collect_results:
  "length (collect_results userDocs cat ts cands) \<le> length cands"
  by (induction cands) (auto split: option.splits)

text \<open>
  C7. The results of every search come in non-increasing order of their scores. When the
  limit is not negative, at most that many candidates are taken from the sorted scores,
  and no more results are returned.
\<close>

theorem ranking_order:
  "sorted_wrt (\<lambda>a b. score b \<le> score a) (searchKnowledgeBase st query uid options) \<and>
   (0 \<le> limit_of options \<longrightarrow>
      int (length (sorted_candidates (documentIndex st) uid (extractSearchTerms query)
                     (limit_of options))) \<le> limit_of options \<and>
      int (length (searchKnowledgeBase st query uid options)) \<le> limit_of options)"
proof (intro conjI impI)
  show "sorted_wrt (\<lambda>a b. score b \<le> score a) (searchKnowledgeBase st query uid options)"
    by (simp add: search_unfold collect_results_sorted sorted_candidates_sorted)
next
  assume l: "0 \<le> limit_of options"
  then show c: "int (length (sorted_candidates (documentIndex st) uid (extractSearchTerms query)
                     (limit_of options))) \<le> limit_of options"
    by (simp add: sorted_candidates_def length_js_slice)
  have "length (searchKnowledgeBase st query uid options) \<le>
          length (sorted_candidates (documentIndex st) uid (extractSearchTerms query)
                    (limit_of options))"
    by (simp add: search_unfold length_collect_results)
  with c show "int (length (searchKnowledgeBase st query uid options)) \<le> limit_of options"
    by linarith
qed

theorem ranking_order_witness:
  "0 \<le> limit_of no_options \<and>
   map score (searchKnowledgeBase state_3 ''apple'' ''alice'' no_options) = [2, 1] \<and>
   sorted_wrt (\<lambda>a b. score b \<le> score a) (searchKnowledgeBase state_3 ''apple'' ''alice'' no_options) \<and>
   int (length (sorted_candidates (documentIndex state_3) ''alice'' (extractSearchTerms ''apple'')
                  (limit_of no_options))) \<le> limit_of no_options \<and>
   int (length (searchKnowledgeBase state_3 ''apple'' ''alice'' no_options)) \<le> 10"
proof -
  have l: "limit_of no_options = 10"
    by (simp add: limit_of_def no_options_def)
  have s: "map score (searchKnowledgeBase state_3 ''apple'' ''alice'' no_options) = [2, 1]"
    by (simp add: search_apple_3 make_result_def)
  from ranking_order [of state_3 "''apple''" "''alice''" no_options] l s
  show ?thesis
    by simp
qed

text \<open>
  With the limit \<open>-1\<close>, \<open>slice(0, -1)\<close> drops the last of the two candidates and keeps
  the other: one candidate is taken, which is more than the limit.
\<close>

theorem ranking_order_counterexample:
  "limit_of minus_one_options = - 1 \<and>
   sorted_candidates (documentIndex state_3) ''alice'' (extractSearchTerms ''apple'')
     (limit_of minus_one_options) = [(''doc_3'', 2)] \<and>
   map score (searchKnowledgeBase state_3 ''apple'' ''alice'' minus_one_options) = [2] \<and>
   \<not> int (length (sorted_candidates (documentIndex state_3) ''alice'' (extractSearchTerms ''apple'')
                    (limit_of minus_one_options))) \<le> limit_of minus_one_options"
  by (simp add: limit_of_def minus_one_options_def terms_apple candidates_apple_3_minus_one
      search_apple_3_minus_one [unfolded minus_one_options_def] make_result_def)

section \<open>Chunking a short text\<close>

lemma split_ws_not_Nil: "split_ws s \<noteq> []"
  by (induction s rule: split_ws.induct) (auto split: list.splits)

lemma is_space_blank: "is_space CHR '' ''"
  by (simp add: is_space_def)

lemma dropWhile_rest: "(\<exists>c\<in>set (dropWhile P xs). \<not> P c) \<longleftrightarrow> (\<exists>c\<in>set xs. \<not> P c)"
  by (induction xs) auto

lemma trim_not_Nil: "trim s \<noteq> [] \<longleftrightarrow> (\<exists>c\<in>set s. \<not> is_space c)"
proof -
  have "trim s \<noteq> [] \<longleftrightarrow> (\<exists>c\<in>set (rev (dropWhile is_space s)). \<not> is_space c)"
    by (simp add: trim_def dropWhile_eq_Nil_conv)
  also have "\<dots> \<longleftrightarrow> (\<exists>c\<in>set (dropWhile is_space s). \<not> is_space c)"
    by simp
  also have "\<dots> \<longleftrightarrow> (\<exists>c\<in>set s. \<not> is_space c)"
    by (rule dropWhile_rest)
  finally show ?thesis .
qed

lemma join_sp_chars:
  "(\<exists>c\<in>set (join_sp ws). \<not> is_space c) \<longleftrightarrow> (\<exists>w\<in>set ws. \<exists>c\<in>set w. \<not> is_space c)"
  by (induction ws rule: join_sp.induct) (auto simp: is_space_blank)

lemma split_ws_chars:
  "(\<exists>w\<in>set (split_ws s). \<exists>c\<in>set w. \<not> is_space c) \<longleftrightarrow> (\<exists>c\<in>set s. \<not> is_space c)"
proof (induction s rule: split_ws.induct)
  case 1
  show ?case by simp
next
  case (2 c cs)
  show ?case
  proof (cases "is_space c")
    case True
    with 2 show ?thesis
      by (simp add: dropWhile_rest)
  next
    case False
    then have "\<exists>w\<in>set (split_ws (c # cs)). \<exists>d\<in>set w. \<not> is_space d"
      by (auto split: list.splits)
    with False show ?thesis
      by auto
  qed
qed

lemma js_slice_all: "int (length xs) \<le> n \<Longrightarrow> js_slice xs 0 n = xs"
  by (simp add: js_slice_def Let_def)

lemma chunk_loop_done:
  "int (length words) \<le> i \<Longrightarrow> chunk_loop words chunkSize overlap i acc = Some acc"
  by (subst chunk_loop.simps) simp

lemma chunk_loop_returns:
  assumes "0 < chunkSize - overlap"
  shows "\<exists>r. chunk_loop words chunkSize overlap i acc = Some r"
proof (induction "nat (int (length words) - i)" arbitrary: i acc rule: less_induct)
  case less
  show ?case
  proof (cases "i < int (length words)")
    case True
    let ?c = "join_sp (js_slice words i (i + chunkSize))"
    let ?next = "if trim ?c \<noteq> []
                   then acc @ [\<lparr>chunk_text = ?c, startIndex = i,
                                    chunk_wordCount = min chunkSize (int (length words) - i)\<rparr>]
                   else acc"
    have "nat (int (length words) - (i + (chunkSize - overlap))) < nat (int (length words) - i)"
      using True assms by linarith
    from less [OF this, of ?next] obtain r where
      "chunk_loop words chunkSize overlap (i + (chunkSize - overlap)) ?next = Some r"
      by blast
    moreover have "chunk_loop words chunkSize overlap i acc =
                   chunk_loop words chunkSize overlap (i + (chunkSize - overlap)) ?next"
      using True by (subst chunk_loop.simps) (simp add: Let_def)
    ultimately show ?thesis
      by simp
  next
    case False
    then show ?thesis
      by (simp add: chunk_loop_done)
  qed
qed

lemma chunkText_returns:
  "0 < chunkSize - overlap \<Longrightarrow> \<exists>r. chunkText txt chunkSize overlap = Some r"
  by (simp add: chunkText_def chunk_loop_returns)

lemma processDocument_returns: "\<exists>r. processDocument st options env = Some r"
proof (cases "extract_text (po_file options) env")
  case (Inl e)
  then show ?thesis
    by (simp add: processDocument_def Let_def)
next
  case (Inr body)
  obtain cs where "chunkText body 1000 100 = Some cs"
    using chunkText_returns [of 1000 100 body] by auto
  with Inr show ?thesis
    by (simp add: processDocument_def Let_def)
qed

text \<open>
  C8. A text with a character that is not white space, whose words are fewer than the
  window and no more than the step from one window to the next (the window less the
  overlap), is chunked into exactly one chunk: it starts at word 0 and holds all the words
  of the text, joined by single spaces.
\<close>

theorem single_chunk:
  assumes "\<exists>c\<in>set txt. \<not> is_space c"
    and "int (length (split_ws txt)) < chunkSize"
    and "int (length (split_ws txt)) \<le> chunkSize - overlap"
  shows "chunkText txt chunkSize overlap =
           Some [\<lparr>chunk_text = join_sp (split_ws txt), startIndex = 0,
                   chunk_wordCount = int (length (split_ws txt))\<rparr>]"
proof -
  let ?words = "split_ws txt"
  let ?chunk = "\<lparr>chunk_text = join_sp ?words, startIndex = 0,
                  chunk_wordCount = int (length ?words)\<rparr>"
  have pos: "0 < int (length ?words)"
    using split_ws_not_Nil [of "txt"] by simp
  have all: "js_slice ?words 0 chunkSize = ?words"
    using assms(2) by (simp add: js_slice_all)
  have "\<exists>c\<in>set (join_sp ?words). \<not> is_space c"
    using assms(1) by (simp add: join_sp_chars split_ws_chars)
  then have kept: "trim (join_sp ?words) \<noteq> []"
    by (simp add: trim_not_Nil)
  have "chunk_loop ?words chunkSize overlap 0 [] =
          chunk_loop ?words chunkSize overlap (chunkSize - overlap) [?chunk]"
    using pos all kept assms(2) by (subst chunk_loop.simps) (simp add: Let_def)
  also have "\<dots> = Some [?chunk]"
    using assms(3) by (rule chunk_loop_done)
  finally show ?thesis
    by (simp add: chunkText_def)
qed

theorem single_chunk_witness:
  "(\<exists>c\<in>set ''a b c''. \<not> is_space c) \<and>
   int (length (split_ws ''a b c'')) < 4 \<and>
   int (length (split_ws ''a b c'')) \<le> 4 - 1 \<and>
   chunkText ''a b c'' 4 1 = Some [\<lparr>chunk_text = ''a b c'', startIndex = 0, chunk_wordCount = 3\<rparr>]"
proof -
  have w: "split_ws ''a b c'' = [''a'', ''b'', ''c'']"
    by (simp add: is_space_def)
  have c: "\<exists>c\<in>set ''a b c''. \<not> is_space c"
    by (simp add: is_space_def)
  have l: "int (length (split_ws ''a b c'')) < 4" "int (length (split_ws ''a b c'')) \<le> 4 - 1"
    unfolding w by simp_all
  have "chunkText ''a b c'' 4 1 =
          Some [\<lparr>chunk_text = ''a b c'', startIndex = 0, chunk_wordCount = 3\<rparr>]"
    using single_chunk [OF c l] unfolding w by simp
  with c l show ?thesis
    by blast
qed

text \<open>
  A text with more words than the step gets a second chunk: the second window starts inside
  the text.
\<close>

lemma two_chunks:
  assumes "0 < chunkSize - overlap"
    and "chunkSize - overlap < int (length words)"
    and "int (length words) \<le> chunkSize"
    and "int (length words) \<le> 2 * (chunkSize - overlap)"
    and "trim (join_sp words) \<noteq> []"
    and "trim (join_sp (drop (nat (chunkSize - overlap)) words)) \<noteq> []"
  shows "chunk_loop words chunkSize overlap 0 [] =
           Some [\<lparr>chunk_text = join_sp words, startIndex = 0,
                   chunk_wordCount = int (length words)\<rparr>,
                 \<lparr>chunk_text = join_sp (drop (nat (chunkSize - overlap)) words),
                   startIndex = chunkSize - overlap,
                   chunk_wordCount = int (length words) - (chunkSize - overlap)\<rparr>]"
proof -
  let ?step = "chunkSize - overlap"
  let ?first = "\<lparr>chunk_text = join_sp words, startIndex = 0,
                  chunk_wordCount = int (length words)\<rparr>"
  let ?second = "\<lparr>chunk_text = join_sp (drop (nat ?step) words), startIndex = ?step,
                   chunk_wordCount = int (length words) - ?step\<rparr>"
  have all: "js_slice words 0 chunkSize = words"
    using assms(3) by (simp add: js_slice_all)
  have rest: "js_slice words ?step (?step + chunkSize) = drop (nat ?step) words"
    using assms(1,2,3) by (simp add: js_slice_def Let_def min_def)
  have some: "words \<noteq> []"
    using assms(1,2) by auto
  have "chunk_loop words chunkSize overlap 0 [] = chunk_loop words chunkSize overlap ?step [?first]"
    using assms(1,2,3,5) all some by (subst chunk_loop.simps) (simp add: Let_def)
  also have "\<dots> = chunk_loop words chunkSize overlap (?step + ?step) [?first, ?second]"
    using assms(1,2,3,6) rest by (subst chunk_loop.simps) (simp add: Let_def)
  also have "\<dots> = Some [?first, ?second]"
    using assms(4) by (intro chunk_loop_done) simp
  finally show ?thesis .
qed

lemma split_ws_word_blank:
  assumes "s = [] \<or> \<not> is_space (hd s)"
  shows "split_ws (''a '' @ s) = ''a'' # split_ws s"
proof -
  have "dropWhile is_space s = s"
    using assms by (cases s) auto
  then show ?thesis
    by (simp add: is_space_def)
qed

lemma split_ws_replicate:
  "split_ws (concat (replicate n ''a '') @ ''a'') = replicate (Suc n) ''a''"
proof (induction n)
  case 0
  show ?case by (simp add: is_space_def)
next
  case (Suc n)
  have "concat (replicate n ''a '') @ ''a'' = [] \<or>
        \<not> is_space (hd (concat (replicate n ''a '') @ ''a''))"
    by (cases n) (simp_all add: is_space_def)
  from split_ws_word_blank [OF this] Suc show ?case
    by simp
qed

lemma words_901: "split_ws text_901 = replicate 901 ''a''"
  by (simp add: text_901_def split_ws_replicate)

lemma trim_join_replicate: "0 < n \<Longrightarrow> trim (join_sp (replicate n ''a'')) \<noteq> []"
proof -
  assume "0 < n"
  then have "\<exists>w\<in>set (replicate n ''a''). \<exists>c\<in>set w. \<not> is_space c"
    by (simp add: is_space_def)
  then show ?thesis
    by (simp add: trim_not_Nil join_sp_chars)
qed

text \<open>
  The text \<open>a b c\<close> has three words, fewer than the window of four. With an overlap of
  two the second window starts at word 2, inside the text, and gives a second chunk. With
  the window 1000 and the overlap 100 that \<open>processDocument\<close> uses, the text of 901
  words has a second chunk as well: it starts at word 900 and holds the last word.
\<close>

theorem single_chunk_counterexample:
  "length (split_ws ''a b c'') = 3 \<and>
   chunkText ''a b c'' 4 2 =
     Some [\<lparr>chunk_text = ''a b c'', startIndex = 0, chunk_wordCount = 3\<rparr>,
           \<lparr>chunk_text = ''c'', startIndex = 2, chunk_wordCount = 1\<rparr>] \<and>
   length (split_ws text_901) = 901 \<and>
   chunkText text_901 1000 100 =
     Some [\<lparr>chunk_text = join_sp (split_ws text_901), startIndex = 0, chunk_wordCount = 901\<rparr>,
           \<lparr>chunk_text = ''a'', startIndex = 900, chunk_wordCount = 1\<rparr>]"
proof -
  have small: "length (split_ws ''a b c'') = 3 \<and>
     chunkText ''a b c'' 4 2 =
       Some [\<lparr>chunk_text = ''a b c'', startIndex = 0, chunk_wordCount = 3\<rparr>,
             \<lparr>chunk_text = ''c'', startIndex = 2, chunk_wordCount = 1\<rparr>]"
    by code_simp
  have d: "drop 900 (replicate 901 ''a'') = [''a'']"
    by simp
  have "chunk_loop (replicate 901 ''a'') 1000 100 0 [] =
          Some [\<lparr>chunk_text = join_sp (replicate 901 ''a''), startIndex = 0,
                  chunk_wordCount = int (length (replicate 901 ''a''))\<rparr>,
                \<lparr>chunk_text = join_sp (drop (nat (1000 - 100)) (replicate 901 ''a'')),
                  startIndex = 1000 - 100,
                  chunk_wordCount = int (length (replicate 901 ''a'')) - (1000 - 100)\<rparr>]"
  proof (rule two_chunks)
    show "trim (join_sp (replicate 901 ''a'')) \<noteq> []"
      by (rule trim_join_replicate) simp
    show "trim (join_sp (drop (nat (1000 - 100)) (replicate 901 ''a''))) \<noteq> []"
      by (simp add: d trim_def is_space_def)
  qed simp_all
  then have "chunkText text_901 1000 100 =
     Some [\<lparr>chunk_text = join_sp (split_ws text_901), startIndex = 0, chunk_wordCount = 901\<rparr>,
           \<lparr>chunk_text = ''a'', startIndex = 900, chunk_wordCount = 1\<rparr>]"
    by (simp add: chunkText_def words_901 d)
  with small show ?thesis
    by (simp add: words_901)
qed

section \<open>The search route and the empty query\<close>

lemma no_match_no_scores:
  assumes "\<forall>t\<in>set ts. \<forall>r\<in>set (index_get idx t). info_userId r \<noteq> uid"
  shows "score_terms idx uid ts = []"
proof -
  have "fst ` set (score_terms idx uid ts) = {}"
    using assms by (auto simp: score_terms_def keys_fold)
  then show ?thesis
    by simp
qed

lemma no_match_no_results:
  assumes "\<forall>t\<in>set (extractSearchTerms query).
             \<forall>r\<in>set (index_get (documentIndex st) t). info_userId r \<noteq> uid"
  shows "searchKnowledgeBase st query uid options = []"
  by (simp add: search_unfold sorted_candidates_def no_match_no_scores [OF assms]
      js_sort_Nil js_slice_Nil)

text \<open>
  The service itself has no check of the query: called with the empty string, as the
  chat command \<open>search\<close> can call it, it finds no term and returns the empty array.
\<close>

lemma search_empty_query: "searchKnowledgeBase st [] uid options = []"
proof -
  have "extractSearchTerms [] = []"
    by (simp add: extractSearchTerms_def toLowerCase_def)
  then show ?thesis
    by (simp add: no_match_no_results)
qed

text \<open>
  What the search route answers: 400 for a missing or empty query, 500 for a query that is
  not a string, and, for a query that is not empty and none of whose terms has an object
  of the user in its entry, 200 with the empty array of results. The service returns the
  empty array for such a query as well.
\<close>

lemma search_route_answers:
  "(q = QAbsent \<or> q = QString [] \<longrightarrow>
      search_route st q limit cat uid = Status400 ''Search query is required'' ''q'') \<and>
   (q = QOther \<longrightarrow> search_route st q limit cat uid = Status500 ''Search failed'' TypeError) \<and>
   (query \<noteq> [] \<and>
    (\<forall>t\<in>set (extractSearchTerms query).
       \<forall>r\<in>set (index_get (documentIndex st) t). info_userId r \<noteq> uid) \<longrightarrow>
      searchKnowledgeBase st query uid options = [] \<and>
      search_route st (QString query) limit cat uid =
        Status200 \<lparr>resp_query = QString query, results = [], totalResults = 0\<rparr>)"
  by (auto simp: search_route_def search_call_def no_match_no_results)

text \<open>
  C4. The empty query is refused by the search route only. The service, called with the
  empty query, returns the empty array and no error, and the chat command \<open>kb search\<close>
  without further words, which calls the service with the empty query, answers with
  success and no results.
\<close>

theorem empty_query_not_rejected:
  "search_route state_3 (QString []) LAbsent None ''alice'' =
     Status400 ''Search query is required'' ''q'' \<and>
   searchKnowledgeBase state_3 [] ''alice'' no_options = [] \<and>
   search_call state_3 (QString []) ''alice'' no_options = Inr [] \<and>
   handleKnowledgeCommand state_3 [''search''] ''alice'' = KnowledgeSearch [] []"
  by (simp add: search_route_def search_call_def handleKnowledgeCommand_def search_empty_query)

section \<open>The list view\<close>

lemma list_entry_keys:
  assumes "e \<in> set (getDocuments st uid options)"
  shows "map fst e =
           [''id'', ''title'', ''description'', ''category'', ''fileName'', ''fileSize'',
            ''wordCount'', ''status'', ''createdAt'', ''updatedAt'']"
proof -
  from assms obtain d where "e = cleaned d"
    by (auto simp: getDocuments_def Let_def)
  then show ?thesis
    by (simp add: cleaned_def)
qed

text \<open>
  C9. The list view of the one document of \<open>alice\<close> in the first example state: the
  entry has ten properties. The extracted text is not among them, and neither is the media
  type, which the stored document has.
\<close>

theorem list_view_without_media_type:
  "getDocuments state_1 ''alice'' no_list_options =
     [[(''id'', JStr ''doc_1''), (''title'', JStr ''Fruit''), (''description'', JStr ''''),
       (''category'', JStr ''general''), (''fileName'', JStr ''fruit.txt''),
       (''fileSize'', JNum 12), (''wordCount'', JNum 2), (''status'', JStr ''processed''),
       (''createdAt'', JStr ''t1''), (''updatedAt'', JStr ''t1'')]] \<and>
   mimeType doc_1 = ''text/plain'' \<and>
   map_of (cleaned doc_1) ''mimeType'' = None \<and>
   map_of (cleaned doc_1) ''extractedText'' = None"
  by (simp add: getDocuments_def no_list_options_def user_docs_def state_1_def js_sort_def
      js_slice_def cleaned_def doc_1_def)

section \<open>Indexing a document twice, and a document with a repeated word\<close>

text \<open>
  C2. Indexing the document \<open>apple banana\<close> twice leaves two objects for the document in
  the entry of \<open>apple\<close>. Ingesting the document \<open>apple apple\<close> once does the same: the
  entry of \<open>apple\<close> ends with two objects for it.
\<close>

theorem indexing_twice_duplicates:
  "index_get (indexDocument (indexDocument Map.empty doc_1) doc_1) ''apple'' = [info_1, info_1] \<and>
   processDocument state_2 options_3 env_3 = Some (Inr doc_3, state_3) \<and>
   index_get (documentIndex state_3) ''apple'' = [info_1, info_2, info_3, info_3]"
proof -
  have "extractSearchTerms (extractedText doc_1) = [''apple'', ''banana'']"
    by (simp add: doc_1_def terms_apple_banana)
  then have "index_get (indexDocument (indexDocument Map.empty doc_1) doc_1) ''apple'' =
               [info_of doc_1, info_of doc_1]"
    by (simp add: indexDocument_def index_add_info index_get_def)
  moreover have "info_of doc_1 = info_1"
    by (simp add: info_of_def info_1_def doc_1_def)
  moreover have "index_get (documentIndex state_3) ''apple'' = [info_1, info_2, info_3, info_3]"
    by (simp add: index_get_def state_3_def)
  ultimately show ?thesis
    using process_3 by simp
qed

section \<open>The index and the documents agree in every state with unique identifiers\<close>

lemma map_of_map_delete: "map_of (map_delete m k) = (map_of m)(k := None)"
  unfolding map_delete_def by (induction m) (auto simp: fun_eq_iff)

lemma index_add_set:
  "set (index_get (index_add d idx a) t) =
     set (index_get idx t) \<union> (if t = a then {info_of d} else {})"
  by (auto simp: index_add_info index_get_def split: option.splits)

lemma index_fold_set:
  "set (index_get (foldl (index_add d) idx ts) t) =
     set (index_get idx t) \<union> (if t \<in> set ts then {info_of d} else {})"
  by (induction ts arbitrary: idx) (auto simp: index_add_set)

lemma indexDocument_set:
  "set (index_get (indexDocument idx d) t) =
     set (index_get idx t) \<union>
     (if t \<in> set (extractSearchTerms (extractedText d)) then {info_of d} else {})"
  by (simp add: indexDocument_def index_fold_set)

lemma index_fold_nonempty:
  "\<forall>t. idx t \<noteq> Some [] \<Longrightarrow> foldl (index_add d) idx ts t \<noteq> Some []"
proof (induction ts arbitrary: idx)
  case Nil
  then show ?case by simp
next
  case (Cons a ts)
  have "\<forall>t. index_add d idx a t \<noteq> Some []"
    using Cons.prems by (simp add: index_add_info)
  from Cons.IH [OF this] show ?case
    by simp
qed

lemma removeFromIndex_get:
  "index_get (removeFromIndex idx did) t = filter (\<lambda>r. documentId r \<noteq> did) (index_get idx t)"
  by (cases "idx t") (simp_all add: removeFromIndex_def index_get_def Let_def)

lemma removeFromIndex_nonempty: "removeFromIndex idx did t \<noteq> Some []"
  using removeFromIndex_entry [of idx did t "[]"] by auto

lemma stored_process:
  assumes "processDocument st options env = Some (Inr doc, st')"
  shows "stored st' u k d \<longleftrightarrow>
           (u = userId doc \<and> k = doc_id doc \<and> d = doc) \<or>
           (\<not> (u = userId doc \<and> k = doc_id doc) \<and> stored st u k d)"
proof -
  have "user_docs st' u =
          (if u = userId doc then map_set (user_docs st (userId doc)) (doc_id doc) doc
           else user_docs st u)"
    by (simp add: user_docs_def processDocument_success(2) [OF assms])
  then show ?thesis
    by (auto simp: stored_def map_of_map_set)
qed

lemma stored_delete:
  assumes "deleteDocument st did uid now = (DeleteOk a b, st')"
  shows "stored st' u k d \<longleftrightarrow> stored st u k d \<and> \<not> (u = uid \<and> k = did)"
proof -
  have "user_docs st' u = (if u = uid then map_delete (user_docs st uid) did else user_docs st u)"
    by (simp add: user_docs_def deleteDocument_success(2) [OF assms])
  then show ?thesis
    by (auto simp: stored_def map_of_map_delete)
qed

lemma consistent_same:
  assumes "consistent st" and "documents st' = documents st"
    and "documentIndex st' = documentIndex st"
  shows "consistent st'"
proof -
  have "stored st' = stored st"
    by (simp add: stored_def user_docs_def assms(2) fun_eq_iff)
  with assms(1,3) show ?thesis
    by (simp add: consistent_def)
qed

lemma consistent_init: "consistent init_state"
  by (simp add: consistent_def stored_def user_docs_def index_get_def init_state_def)

lemma consistent_owned:
  "consistent st \<Longrightarrow> stored st u k d \<Longrightarrow> doc_id d = k \<and> userId d = u"
  unfolding consistent_def by blast

lemma consistent_one_user:
  "consistent st \<Longrightarrow> stored st u k d \<Longrightarrow> stored st u' k d' \<Longrightarrow> u = u'"
  unfolding consistent_def by blast

lemma consistent_indexed:
  "consistent st \<Longrightarrow> stored st u k d \<Longrightarrow> t \<in> set (extractSearchTerms (extractedText d)) \<Longrightarrow>
     info_of d \<in> set (index_get (documentIndex st) t)"
  unfolding consistent_def by blast

lemma consistent_refs:
  "consistent st \<Longrightarrow> x \<in> set (index_get (documentIndex st) t) \<Longrightarrow>
     \<exists>d. stored st (info_userId x) (documentId x) d \<and>
         t \<in> set (extractSearchTerms (extractedText d))"
  unfolding consistent_def by blast

lemma consistent_entries: "consistent st \<Longrightarrow> documentIndex st t \<noteq> Some []"
  unfolding consistent_def by blast

lemma consistentI:
  assumes "\<And>u k d. stored st u k d \<Longrightarrow> doc_id d = k \<and> userId d = u"
    and "\<And>u u' k d d'. stored st u k d \<Longrightarrow> stored st u' k d' \<Longrightarrow> u = u'"
    and "\<And>u k d t. stored st u k d \<Longrightarrow> t \<in> set (extractSearchTerms (extractedText d)) \<Longrightarrow>
           info_of d \<in> set (index_get (documentIndex st) t)"
    and "\<And>t x. x \<in> set (index_get (documentIndex st) t) \<Longrightarrow>
           \<exists>d. stored st (info_userId x) (documentId x) d \<and>
               t \<in> set (extractSearchTerms (extractedText d))"
    and "\<And>t. documentIndex st t \<noteq> Some []"
  shows "consistent st"
  unfolding consistent_def using assms by blast

lemma consistent_process:
  assumes c: "consistent st" and fresh: "id_unused st (new_id env)"
    and p: "processDocument st options env = Some (r, st')"
  shows "consistent st'"
proof (cases r)
  case (Inl e)
  with p have "documents st' = documents st" "documentIndex st' = documentIndex st"
    by (auto simp: processDocument_def Let_def split: sum.splits option.splits)
  with c show ?thesis
    by (rule consistent_same)
next
  case (Inr doc)
  with p have ok: "processDocument st options env = Some (Inr doc, st')"
    by simp
  have idx: "documentIndex st' = indexDocument (documentIndex st) doc"
    by (rule processDocument_success(1) [OF ok])
  have new: "\<not> stored st u (doc_id doc) d" for u d
    using fresh processDocument_success(5) [OF ok] by (simp add: id_unused_def stored_def)
  have here: "stored st' (userId doc) (doc_id doc) doc"
    by (simp add: stored_process [OF ok])
  have old: "stored st' u k d" if "stored st u k d" for u k d
  proof -
    from that new have "k \<noteq> doc_id doc"
      by auto
    with that show ?thesis
      by (simp add: stored_process [OF ok])
  qed
  have before: "(u = userId doc \<and> k = doc_id doc \<and> d = doc) \<or> (k \<noteq> doc_id doc \<and> stored st u k d)"
    if "stored st' u k d" for u k d
  proof (cases "u = userId doc \<and> k = doc_id doc")
    case True
    with that show ?thesis
      by (simp add: stored_process [OF ok])
  next
    case False
    with that have s: "stored st u k d"
      by (auto simp: stored_process [OF ok])
    with new have "k \<noteq> doc_id doc"
      by auto
    with s show ?thesis
      by simp
  qed
  show ?thesis
  proof (rule consistentI)
    fix u k d assume "stored st' u k d"
    from before [OF this] show "doc_id d = k \<and> userId d = u"
      using consistent_owned [OF c] by auto
  next
    fix u u' k d d' assume a: "stored st' u k d" and b: "stored st' u' k d'"
    show "u = u'"
    proof (cases "k = doc_id doc")
      case True
      with before [OF a] before [OF b] show ?thesis
        by simp
    next
      case False
      with before [OF a] before [OF b] have "stored st u k d" "stored st u' k d'"
        by simp_all
      then show ?thesis
        by (rule consistent_one_user [OF c])
    qed
  next
    fix u k d t
    assume s: "stored st' u k d" and t: "t \<in> set (extractSearchTerms (extractedText d))"
    from before [OF s] show "info_of d \<in> set (index_get (documentIndex st') t)"
    proof
      assume "u = userId doc \<and> k = doc_id doc \<and> d = doc"
      with t show ?thesis
        by (simp add: idx indexDocument_set)
    next
      assume "k \<noteq> doc_id doc \<and> stored st u k d"
      then have "info_of d \<in> set (index_get (documentIndex st) t)"
        using consistent_indexed [OF c _ t] by blast
      then show ?thesis
        by (simp add: idx indexDocument_set)
    qed
  next
    fix t x assume "x \<in> set (index_get (documentIndex st') t)"
    then have "x \<in> set (index_get (documentIndex st) t) \<or>
               (x = info_of doc \<and> t \<in> set (extractSearchTerms (extractedText doc)))"
      by (auto simp: idx indexDocument_set split: if_splits)
    then show "\<exists>d. stored st' (info_userId x) (documentId x) d \<and>
                   t \<in> set (extractSearchTerms (extractedText d))"
    proof
      assume "x \<in> set (index_get (documentIndex st) t)"
      from consistent_refs [OF c this] obtain d where
        "stored st (info_userId x) (documentId x) d" "t \<in> set (extractSearchTerms (extractedText d))"
        by blast
      with old show ?thesis
        by blast
    next
      assume x: "x = info_of doc \<and> t \<in> set (extractSearchTerms (extractedText doc))"
      then have "info_userId x = userId doc" "documentId x = doc_id doc"
        by (simp_all add: info_of_def)
      with here x show ?thesis
        by auto
    qed
  next
    fix t
    have "\<forall>t. documentIndex st t \<noteq> Some []"
      using consistent_entries [OF c] by simp
    from index_fold_nonempty [OF this] show "documentIndex st' t \<noteq> Some []"
      by (simp add: idx indexDocument_def)
  qed
qed

lemma consistent_delete:
  assumes c: "consistent st" and p: "deleteDocument st did uid now = (r, st')"
  shows "consistent st'"
proof (cases "map_of (user_docs st uid) did")
  case None
  with p have "st' = st"
    by (simp add: deleteDocument_def)
  with c show ?thesis by simp
next
  case (Some doc)
  with p have ok: "deleteDocument st did uid now = (DeleteOk did now, st')"
    by (auto simp: deleteDocument_def Let_def)
  have idx: "documentIndex st' = removeFromIndex (documentIndex st) did"
    by (rule deleteDocument_success(1) [OF ok])
  have gone: "stored st uid did doc"
    using Some by (simp add: stored_def)
  have before: "stored st u k d \<and> k \<noteq> did" if "stored st' u k d" for u k d
  proof -
    from that have s: "stored st u k d" and n: "\<not> (u = uid \<and> k = did)"
      by (simp_all add: stored_delete [OF ok])
    have "k \<noteq> did"
    proof
      assume "k = did"
      with s have "stored st u did d" by simp
      from consistent_one_user [OF c this gone] n \<open>k = did\<close> show False
        by simp
    qed
    with s show ?thesis
      by simp
  qed
  have keep: "stored st' u k d" if "stored st u k d" "k \<noteq> did" for u k d
    using that by (simp add: stored_delete [OF ok])
  show ?thesis
  proof (rule consistentI)
    fix u k d assume "stored st' u k d"
    from before [OF this] show "doc_id d = k \<and> userId d = u"
      using consistent_owned [OF c] by blast
  next
    fix u u' k d d' assume "stored st' u k d" "stored st' u' k d'"
    from before [OF this(1)] before [OF this(2)] show "u = u'"
      using consistent_one_user [OF c] by blast
  next
    fix u k d t
    assume s: "stored st' u k d" and t: "t \<in> set (extractSearchTerms (extractedText d))"
    from before [OF s] have old: "stored st u k d" and n: "k \<noteq> did"
      by simp_all
    from consistent_owned [OF c old] n have "documentId (info_of d) \<noteq> did"
      by (simp add: info_of_def)
    with consistent_indexed [OF c old t] show "info_of d \<in> set (index_get (documentIndex st') t)"
      by (simp add: idx removeFromIndex_get)
  next
    fix t x assume "x \<in> set (index_get (documentIndex st') t)"
    then have x: "x \<in> set (index_get (documentIndex st) t)" and n: "documentId x \<noteq> did"
      by (simp_all add: idx removeFromIndex_get)
    from consistent_refs [OF c x] obtain d where
      d: "stored st (info_userId x) (documentId x) d" "t \<in> set (extractSearchTerms (extractedText d))"
      by blast
    from keep [OF d(1) n] d(2)
    show "\<exists>d. stored st' (info_userId x) (documentId x) d \<and>
               t \<in> set (extractSearchTerms (extractedText d))"
      by blast
  next
    fix t
    show "documentIndex st' t \<noteq> Some []"
      by (simp add: idx removeFromIndex_nonempty)
  qed
qed

lemma reachable_unique_consistent: "reachable_unique st \<Longrightarrow> consistent st"
proof (induction rule: reachable_unique.induct)
  case unique_init
  show ?case by (rule consistent_init)
next
  case (unique_upload st p)
  then show ?case by (simp add: consistent_same)
next
  case (unique_process st env options r st')
  then show ?case by (blast intro: consistent_process)
next
  case (unique_delete st did uid now r st')
  then show ?case by (blast intro: consistent_delete)
qed

lemma reachable_unique_reachable: "reachable_unique st \<Longrightarrow> reachable st"
  by (induction rule: reachable_unique.induct) (auto intro: reachable.intros)

lemma unique_state_0: "reachable_unique state_0"
proof -
  let ?s1 = "init_state\<lparr>files := insert ''uploads/1_fruit.txt'' (files init_state)\<rparr>"
  let ?s2 = "?s1\<lparr>files := insert ''uploads/2_note.txt'' (files ?s1)\<rparr>"
  let ?s3 = "?s2\<lparr>files := insert ''uploads/3_memo.txt'' (files ?s2)\<rparr>"
  have "reachable_unique ?s3"
    by (intro unique_upload unique_init)
  moreover have "?s3 = state_0"
    by (auto simp: state_0_def init_state_def all_files_def)
  ultimately show ?thesis
    by simp
qed

lemma unused_1: "id_unused state_0 (new_id env_1)"
  by (simp add: id_unused_def user_docs_def state_0_def env_1_def)

lemma unused_2: "id_unused state_1 (new_id env_2)"
  by (simp add: id_unused_def user_docs_def state_1_def env_2_def)

lemma unused_3: "id_unused state_2 (new_id env_3)"
  by (simp add: id_unused_def user_docs_def state_2_def env_3_def)

lemma unique_state_1: "reachable_unique state_1"
  using unique_state_0 unused_1 process_1 by (rule unique_process)

lemma unique_state_2: "reachable_unique state_2"
  using unique_state_1 unused_2 process_2 by (rule unique_process)

lemma unique_state_3: "reachable_unique state_3"
  using unique_state_2 unused_3 process_3 by (rule unique_process)

text \<open>
  C5. In every state that the module reaches with unique identifiers, every document
  stored for a user has, for every term of its text, an entry in the index that holds an
  object naming the document and its user; every object in the index names a stored
  document whose text has the term, so that none names a deleted document; and no entry is
  empty. A document that \<open>processDocument\<close> returns is stored in the state it leaves. When
  \<open>deleteDocument\<close> succeeds, the document is no longer stored, no entry of the index holds
  an object naming it, and no entry is empty. Both calls lead from states with unique
  identifiers to such states.
\<close>

theorem index_document_consistency:
  "(reachable_unique st \<longrightarrow>
      (\<forall>u k d. map_of (user_docs st u) k = Some d \<longrightarrow>
         (\<forall>t\<in>set (extractSearchTerms (extractedText d)).
            \<exists>refs. documentIndex st t = Some refs \<and>
              (\<exists>r\<in>set refs. documentId r = doc_id d \<and> info_userId r = userId d))) \<and>
      (\<forall>t refs. documentIndex st t = Some refs \<longrightarrow>
         refs \<noteq> [] \<and>
         (\<forall>r\<in>set refs. \<exists>d. map_of (user_docs st (info_userId r)) (documentId r) = Some d \<and>
            t \<in> set (extractSearchTerms (extractedText d))))) \<and>
   (processDocument st1 options env = Some (Inr doc, st1') \<longrightarrow>
      map_of (user_docs st1' (userId doc)) (doc_id doc) = Some doc \<and>
      (reachable_unique st1 \<and> id_unused st1 (new_id env) \<longrightarrow> reachable_unique st1')) \<and>
   (deleteDocument st2 did uid now = (DeleteOk did now, st2') \<longrightarrow>
      map_of (user_docs st2' uid) did = None \<and>
      (reachable_unique st2 \<longrightarrow> reachable_unique st2') \<and>
      (\<forall>t refs. documentIndex st2' t = Some refs \<longrightarrow>
         refs \<noteq> [] \<and> (\<forall>r\<in>set refs. documentId r \<noteq> did)))"
proof (intro conjI impI allI ballI)
  fix u k d t
  assume r: "reachable_unique st" and s: "map_of (user_docs st u) k = Some d"
    and t: "t \<in> set (extractSearchTerms (extractedText d))"
  from s have "stored st u k d"
    by (simp add: stored_def)
  from consistent_indexed [OF reachable_unique_consistent [OF r] this t]
  obtain refs where "documentIndex st t = Some refs" "info_of d \<in> set refs"
    using index_get_entry by blast
  moreover have "documentId (info_of d) = doc_id d \<and> info_userId (info_of d) = userId d"
    by (simp add: info_of_def)
  ultimately show "\<exists>refs. documentIndex st t = Some refs \<and>
              (\<exists>r\<in>set refs. documentId r = doc_id d \<and> info_userId r = userId d)"
    by blast
next
  fix t refs
  assume r: "reachable_unique st" and e: "documentIndex st t = Some refs"
  with consistent_entries [OF reachable_unique_consistent [OF r], of t] show "refs \<noteq> []"
    by auto
  fix x assume "x \<in> set refs"
  with e have "x \<in> set (index_get (documentIndex st) t)"
    by (simp add: index_get_def)
  from consistent_refs [OF reachable_unique_consistent [OF r] this]
  show "\<exists>d. map_of (user_docs st (info_userId x)) (documentId x) = Some d \<and>
            t \<in> set (extractSearchTerms (extractedText d))"
    by (simp add: stored_def)
next
  assume ok: "processDocument st1 options env = Some (Inr doc, st1')"
  have "stored st1' (userId doc) (doc_id doc) doc"
    by (simp add: stored_process [OF ok])
  then show "map_of (user_docs st1' (userId doc)) (doc_id doc) = Some doc"
    by (simp add: stored_def)
  assume "reachable_unique st1 \<and> id_unused st1 (new_id env)"
  with ok show "reachable_unique st1'"
    by (blast intro: unique_process)
next
  assume ok: "deleteDocument st2 did uid now = (DeleteOk did now, st2')"
  have "\<not> stored st2' uid did d" for d
    by (simp add: stored_delete [OF ok])
  then show "map_of (user_docs st2' uid) did = None"
    by (cases "map_of (user_docs st2' uid) did") (auto simp: stored_def)
  {
    assume "reachable_unique st2"
    from this ok show "reachable_unique st2'"
      by (rule unique_delete)
  }
  fix t refs
  assume e: "documentIndex st2' t = Some refs"
  from removeFromIndex_entry [of "documentIndex st2" did t refs] deleteDocument_success(1) [OF ok] e
  show "refs \<noteq> []" by simp
  fix r assume "r \<in> set refs"
  with removeFromIndex_entry [of "documentIndex st2" did t refs] deleteDocument_success(1) [OF ok] e
  show "documentId r \<noteq> did" by simp
qed

theorem index_document_consistency_witness:
  "reachable_unique state_3 \<and>
   map_of (user_docs state_3 ''alice'') ''doc_1'' = Some doc_1 \<and>
   (\<exists>refs. documentIndex state_3 ''banana'' = Some refs \<and>
      (\<exists>r\<in>set refs. documentId r = doc_id doc_1 \<and> info_userId r = userId doc_1)) \<and>
   processDocument state_2 options_3 env_3 = Some (Inr doc_3, state_3) \<and>
   id_unused state_2 (new_id env_3) \<and>
   map_of (user_docs state_3 (userId doc_3)) (doc_id doc_3) = Some doc_3 \<and>
   deleteDocument state_3 ''doc_1'' ''alice'' ''t9'' = (DeleteOk ''doc_1'' ''t9'', state_4) \<and>
   reachable_unique state_4 \<and>
   map_of (user_docs state_4 ''alice'') ''doc_1'' = None \<and>
   documentIndex state_4 ''apple'' = Some [info_2, info_3, info_3] \<and>
   documentId info_2 \<noteq> ''doc_1'' \<and> documentId info_3 \<noteq> ''doc_1'' \<and>
   documentIndex state_4 ''banana'' = None"
proof -
  note all = index_document_consistency
    [where st = state_3 and ?st1.0 = state_2 and options = options_3 and env = env_3
       and doc = doc_3 and st1' = state_3 and ?st2.0 = state_3 and did = "''doc_1''"
       and uid = "''alice''" and now = "''t9''" and st2' = state_4]
  have s: "map_of (user_docs state_3 ''alice'') ''doc_1'' = Some doc_1"
    by (simp add: user_docs_alice_3)
  have t: "''banana'' \<in> set (extractSearchTerms (extractedText doc_1))"
    by (simp add: doc_1_def terms_apple_banana)
  from all unique_state_3 s t
  have b: "\<exists>refs. documentIndex state_3 ''banana'' = Some refs \<and>
      (\<exists>r\<in>set refs. documentId r = doc_id doc_1 \<and> info_userId r = userId doc_1)"
    by blast
  from all process_3 unique_state_2 unused_3
  have p: "map_of (user_docs state_3 (userId doc_3)) (doc_id doc_3) = Some doc_3"
    by blast
  from all delete_1 unique_state_3
  have d: "reachable_unique state_4" "map_of (user_docs state_4 ''alice'') ''doc_1'' = None"
    by blast+
  have a: "documentIndex state_4 ''apple'' = Some [info_2, info_3, info_3]"
    by (simp add: state_4_def state_3_def removeFromIndex_def info_1_def info_2_def info_3_def)
  have n: "documentIndex state_4 ''banana'' = None"
    by (simp add: state_4_def state_3_def removeFromIndex_def info_1_def)
  have i: "documentId info_2 \<noteq> ''doc_1''" "documentId info_3 \<noteq> ''doc_1''"
    by (simp_all add: info_2_def info_3_def)
  from unique_state_3 s b process_3 unused_3 p delete_1 d a n i show ?thesis
    by blast
qed

end
